theory Spec2Isabelle
  imports Main "HOL-Library.Char_ord" "HOL-Library.List_Lexorder" "HOL-Library.Multiset"
    "HOL-Library.Log_Nat"
begin

section \<open>The storage schema (db.ts)\<close>

text \<open>
  The three tables of the SQLite database are lists of rows in rowid order, which is
  insertion order: rows are only ever appended, and both kinds of integer primary key
  hand out the greatest rowid so far plus one.

  The columns \<open>timestamp DATETIME DEFAULT CURRENT_TIMESTAMP\<close> hold the text
  \<open>YYYY-MM-DD HH:MM:SS\<close> in UTC, which has a resolution of one second and whose text
  order is the chronological order; a timestamp is modelled as the number of seconds it
  denotes. The clock is not part of the database: every operation that inserts a row
  takes the value of \<open>CURRENT_TIMESTAMP\<close> at that insert as an argument.

  Strings are byte strings, the UTF-8 text that SQLite stores and compares.
\<close>

type_synonym timestamp = nat

record character_row =
  c_id :: nat
  name :: string
  realm_slug :: string
  region :: string

record snapshot_row =
  s_id :: nat
  s_character_id :: nat
  s_bracket :: string
  s_timestamp :: timestamp
  s_rating :: int
  season_played :: int
  season_won :: int
  season_lost :: int
  weekly_played :: int
  weekly_won :: int
  weekly_lost :: int

text \<open>
  \<open>RatingChange\<close> is the interface of db.ts, the columns that \<open>getRatingChanges\<close>
  selects; a row of the table \<open>rating_changes\<close> has the two further columns \<open>id\<close>
  and \<open>character_id\<close>.
\<close>

record RatingChange =
  timestamp :: timestamp
  bracket :: string
  old_rating :: int
  new_rating :: int
  rating_change :: int
  games_played :: int
  games_won :: int
  games_lost :: int

record rating_changes_row = RatingChange +
  rc_id :: nat
  rc_character_id :: nat

record db =
  characters :: "character_row list"
  pvp_snapshots :: "snapshot_row list"
  rating_changes :: "rating_changes_row list"

record match_statistics =
  played :: int
  won :: int
  lost :: int

record PvPBracketData =
  rating :: int
  season_match_statistics :: match_statistics
  weekly_match_statistics :: match_statistics

record process_result =
  changed :: bool
  ratingChange :: "int option"

datatype error =
  TypeError
  | ForeignKeyError
  | TokenError
  | FetchRejected
  | HttpError nat
  | JsonError

text \<open>The database after \<open>CREATE TABLE IF NOT EXISTS\<close> on a fresh file.\<close>

definition init_db :: db where
  "init_db = \<lparr>characters = [], pvp_snapshots = [], rating_changes = []\<rparr>"

text \<open>The rowid SQLite gives to a new row: one more than the greatest one in the table.\<close>

definition next_rowid :: "nat list \<Rightarrow> nat" where
  "next_rowid ids = Suc (fold max ids 0)"

text \<open>
  \<open>FOREIGN KEY (character_id) REFERENCES characters(id)\<close>, which the database
  enforces: an insert into \<open>pvp_snapshots\<close> or \<open>rating_changes\<close> throws and stores
  nothing unless \<open>characters\<close> holds a row with that id.
\<close>

definition character_exists :: "db \<Rightarrow> nat \<Rightarrow> bool" where
  "character_exists d characterId = (characterId \<in> set (map c_id (characters d)))"

section \<open>Numbers\<close>

text \<open>
  The numbers of the program are JavaScript numbers, IEEE 754 doubles. The ratings and
  game counts of the remote API are integers, so a number is modelled by the integer it
  denotes, and the subtraction of the program by the exact difference rounded to the
  nearest double: up to magnitude \<open>2^53\<close> every integer is a double; beyond, a double
  keeps the 53 leading bits, and the rounding is to the nearest such value, to the one
  with an even last bit on a tie. Fractions, and differences beyond the largest finite
  double, are outside this model.
\<close>

definition double_round :: "int \<Rightarrow> int" where
  "double_round x =
     (if \<bar>x\<bar> \<le> 2 ^ 53 then x
      else
        (let k = nat (bitlen \<bar>x\<bar>) - 53;
             q = \<bar>x\<bar> div 2 ^ k;
             r = \<bar>x\<bar> mod 2 ^ k;
             m = (if 2 ^ k < 2 * r then q + 1
                  else if 2 * r = 2 ^ k \<and> odd q then q + 1
                  else q)
         in sgn x * (m * 2 ^ k)))"

definition js_minus :: "int \<Rightarrow> int \<Rightarrow> int" where
  "js_minus a b = double_round (a - b)"

text \<open>
  Numbers of magnitude up to \<open>2^52\<close>: they are doubles, and so is the difference of
  any two of them.
\<close>

definition in_exact_range :: "int \<Rightarrow> bool" where
  "in_exact_range x = (\<bar>x\<bar> \<le> 2 ^ 52)"

definition data_in_exact_range :: "PvPBracketData \<Rightarrow> bool" where
  "data_in_exact_range data =
     (in_exact_range (rating data) \<and>
      in_exact_range (played (season_match_statistics data)) \<and>
      in_exact_range (won (season_match_statistics data)) \<and>
      in_exact_range (lost (season_match_statistics data)))"

definition snapshot_in_exact_range :: "snapshot_row \<Rightarrow> bool" where
  "snapshot_in_exact_range l =
     (in_exact_range (s_rating l) \<and>
      in_exact_range (season_played l) \<and>
      in_exact_range (season_won l) \<and>
      in_exact_range (season_lost l))"

section \<open>Character registry\<close>

definition same_character :: "string \<Rightarrow> string \<Rightarrow> string \<Rightarrow> character_row \<Rightarrow> bool" where
  "same_character n r g c = (name c = n \<and> realm_slug c = r \<and> region c = g)"

text \<open>
  \<open>INSERT OR IGNORE INTO characters (name, realm_slug, region)\<close>: the row is skipped
  when it would break \<open>UNIQUE(name, realm_slug, region)\<close>.
\<close>

definition insert_or_ignore_character :: "db \<Rightarrow> string \<Rightarrow> string \<Rightarrow> string \<Rightarrow> db" where
  "insert_or_ignore_character d n r g =
     (case find (same_character n r g) (characters d) of
        Some c \<Rightarrow> d
      | None \<Rightarrow>
          d\<lparr>characters := characters d @
             [\<lparr>c_id = next_rowid (map c_id (characters d)),
               name = n, realm_slug = r, region = g\<rparr>]\<rparr>)"

text \<open>
  \<open>getOrCreateCharacter\<close>: the insert, then \<open>SELECT id ... WHERE name = ? AND
  realm_slug = ? AND region = ?\<close>; \<open>row.id\<close> on a missing row is a TypeError.

  \<open>String.prototype.toLowerCase\<close> is the method of the JavaScript runtime, which
  lowers by the Unicode case mappings. It is not part of the program: the first
  argument \<open>toLowerCase\<close> stands for it, as a function on strings about which nothing
  is assumed.
\<close>

definition getOrCreateCharacter ::
  "(string \<Rightarrow> string) \<Rightarrow> db \<Rightarrow> string \<Rightarrow> string \<Rightarrow> string \<Rightarrow> (error + nat) \<times> db" where
  "getOrCreateCharacter toLowerCase d nm realmSlug reg =
     (let d' = insert_or_ignore_character d
                 (toLowerCase nm) (toLowerCase realmSlug) (toLowerCase reg)
      in case find (same_character (toLowerCase nm) (toLowerCase realmSlug) (toLowerCase reg))
                (characters d') of
           None \<Rightarrow> (Inl TypeError, d')
         | Some row \<Rightarrow> (Inr (c_id row), d'))"

section \<open>Snapshot store\<close>

text \<open>
  \<open>ORDER BY timestamp DESC LIMIT 1\<close>. The query names no second sort key. SQLite
  visits the rows of the pair through the index on \<open>(character_id, bracket)\<close>, that is
  in rowid order, and its sorter for a \<open>LIMIT\<close> keeps the row it holds unless the next
  one sorts strictly before it: a later row replaces the kept one only when its
  timestamp is strictly greater.
\<close>

fun order_by_timestamp_desc_limit_1 :: "snapshot_row list \<Rightarrow> snapshot_row option" where
  "order_by_timestamp_desc_limit_1 [] = None"
| "order_by_timestamp_desc_limit_1 (x # xs) =
     Some (fold (\<lambda>r kept. if s_timestamp kept < s_timestamp r then r else kept) xs x)"

definition getLatestSnapshot :: "db \<Rightarrow> nat \<Rightarrow> string \<Rightarrow> snapshot_row option" where
  "getLatestSnapshot d characterId b =
     order_by_timestamp_desc_limit_1
       (filter (\<lambda>r. s_character_id r = characterId \<and> s_bracket r = b) (pvp_snapshots d))"

text \<open>\<open>saveSnapshot\<close>: one insert, which throws when the foreign key has no row.\<close>

definition saveSnapshot ::
  "db \<Rightarrow> timestamp \<Rightarrow> nat \<Rightarrow> string \<Rightarrow> PvPBracketData \<Rightarrow> error + db" where
  "saveSnapshot d now characterId b data =
     (if character_exists d characterId
      then Inr (d\<lparr>pvp_snapshots := pvp_snapshots d @
                  [\<lparr>s_id = next_rowid (map s_id (pvp_snapshots d)),
                    s_character_id = characterId,
                    s_bracket = b,
                    s_timestamp = now,
                    s_rating = rating data,
                    season_played = played (season_match_statistics data),
                    season_won = won (season_match_statistics data),
                    season_lost = lost (season_match_statistics data),
                    weekly_played = played (weekly_match_statistics data),
                    weekly_won = won (weekly_match_statistics data),
                    weekly_lost = lost (weekly_match_statistics data)\<rparr>]\<rparr>)
      else Inl ForeignKeyError)"

section \<open>Rating change ledger\<close>

text \<open>
  \<open>recordRatingChange\<close>: one insert, under the same foreign key; the column
  \<open>rating_change\<close> gets \<open>newRating - oldRating\<close>, a subtraction of doubles.
\<close>

definition recordRatingChange ::
  "db \<Rightarrow> timestamp \<Rightarrow> nat \<Rightarrow> string \<Rightarrow> int \<Rightarrow> int \<Rightarrow> int \<Rightarrow> int \<Rightarrow> int \<Rightarrow> error + db" where
  "recordRatingChange d now characterId b oldRating newRating gamesPlayed gamesWon gamesLost =
     (if character_exists d characterId
      then Inr (d\<lparr>rating_changes := rating_changes d @
                  [\<lparr>timestamp = now,
                    bracket = b,
                    old_rating = oldRating,
                    new_rating = newRating,
                    rating_change = js_minus newRating oldRating,
                    games_played = gamesPlayed,
                    games_won = gamesWon,
                    games_lost = gamesLost,
                    rc_id = next_rowid (map rc_id (rating_changes d)),
                    rc_character_id = characterId\<rparr>]\<rparr>)
      else Inl ForeignKeyError)"

text \<open>
  \<open>getRatingChanges\<close>. The filter on the bracket is added under \<open>if (bracket)\<close>, which
  is false for a missing argument and for the empty string. \<open>ORDER BY timestamp ASC\<close>
  is a stable sort of the rows in the order the index on \<open>(character_id, bracket)\<close>
  yields them: by bracket, then by rowid.
\<close>

definition getRatingChanges :: "db \<Rightarrow> nat \<Rightarrow> string option \<Rightarrow> RatingChange list" where
  "getRatingChanges d characterId b =
     map RatingChange.truncate
       (sort_key timestamp
          (sort_key bracket
             (filter (\<lambda>r. rc_character_id r = characterId \<and>
                           (case b of None \<Rightarrow> True
                            | Some x \<Rightarrow> if x = [] then True else bracket r = x))
                     (rating_changes d))))"

section \<open>Change detection\<close>

text \<open>
  \<open>processSnapshot\<close>. The two inserts read \<open>CURRENT_TIMESTAMP\<close> one after the other:
  \<open>now\<close> is the value at the insert of the snapshot, \<open>now'\<close> the one at the insert of
  the rating change. An insert that throws ends the call with the error, and the
  database stays as the inserts before it left it. The lines written to the console are
  left out.
\<close>

definition processSnapshot ::
  "db \<Rightarrow> timestamp \<Rightarrow> timestamp \<Rightarrow> nat \<Rightarrow> string \<Rightarrow> PvPBracketData \<Rightarrow>
     (error + process_result) \<times> db" where
  "processSnapshot d now now' characterId b currentData =
     (let lastSnapshot = getLatestSnapshot d characterId b
      in case saveSnapshot d now characterId b currentData of
           Inl err \<Rightarrow> (Inl err, d)
         | Inr d1 \<Rightarrow>
             (case lastSnapshot of
                None \<Rightarrow> (Inr \<lparr>changed = False, ratingChange = None\<rparr>, d1)
              | Some l \<Rightarrow>
                  (let gamesPlayedDiff =
                         js_minus (played (season_match_statistics currentData)) (season_played l)
                   in if gamesPlayedDiff > 0
                      then
                        (let gamesWonDiff =
                               js_minus (won (season_match_statistics currentData)) (season_won l);
                             gamesLostDiff =
                               js_minus (lost (season_match_statistics currentData)) (season_lost l);
                             ratingChange = js_minus (rating currentData) (s_rating l)
                         in case recordRatingChange d1 now' characterId b
                                   (s_rating l) (rating currentData)
                                   gamesPlayedDiff gamesWonDiff gamesLostDiff of
                              Inl err \<Rightarrow> (Inl err, d1)
                            | Inr d2 \<Rightarrow>
                                (Inr \<lparr>changed = True, ratingChange = Some ratingChange\<rparr>, d2))
                      else (Inr \<lparr>changed = False, ratingChange = None\<rparr>, d1))))"

section \<open>Poll orchestrator (tracker.ts, auth.ts)\<close>

record config =
  characterName :: string
  realmSlug :: string
  cfg_region :: string
  brackets :: "string list"
  pollIntervalMs :: nat

definition CONFIG :: config where
  "CONFIG = \<lparr>characterName = ''bigbrainwiz'',
             realmSlug = ''malganis'',
             cfg_region = ''us'',
             brackets = [''shuffle-priest-shadow'', ''blitz-priest-shadow''],
             pollIntervalMs = 5 * 60 * 1000\<rparr>"

text \<open>
  What the network answers. \<open>fetch\<close> either rejects or resolves to a response with a
  status and a body; \<open>response.ok\<close> is the status being in 200..299. The body of a
  bracket response parses to bracket data, to \<open>null\<close>, or not at all.
\<close>

datatype json_body = JsonInvalid | JsonNull | JsonData PvPBracketData

datatype fetch_reply = Rejected | Response nat json_body

datatype token_reply = TokenRejected | TokenResponse nat string

text \<open>
  The world around one poll: the answer of the token endpoint, the answer to the bracket
  request made with a token for a bracket, and the values of \<open>CURRENT_TIMESTAMP\<close> at
  the two inserts made while that bracket is processed.
\<close>

record env =
  token_answer :: token_reply
  bracket_answer :: "string \<Rightarrow> string \<Rightarrow> fetch_reply"
  insert_time :: "string \<Rightarrow> timestamp \<times> timestamp"

text \<open>
  What one poll does that can be seen from outside: the bracket requests it sends and
  the lines it writes (the opening line with the time of the poll is left out).
\<close>

datatype event =
  Request string
  | LogRating string int int
  | LogChange "int option"
  | LogNoData string
  | LogError error

definition response_ok :: "nat \<Rightarrow> bool" where
  "response_ok status = (200 \<le> status \<and> status \<le> 299)"

definition getAccessToken :: "token_reply \<Rightarrow> error + string" where
  "getAccessToken r =
     (case r of
        TokenRejected \<Rightarrow> Inl FetchRejected
      | TokenResponse status tok \<Rightarrow>
          if \<not> response_ok status then Inl TokenError else Inr tok)"

definition fetchPvPBracket :: "fetch_reply \<Rightarrow> error + PvPBracketData option" where
  "fetchPvPBracket r =
     (case r of
        Rejected \<Rightarrow> Inl FetchRejected
      | Response status body \<Rightarrow>
          if \<not> response_ok status
          then (if status = 404 then Inr None else Inl (HttpError status))
          else (case body of
                  JsonInvalid \<Rightarrow> Inl JsonError
                | JsonNull \<Rightarrow> Inr None
                | JsonData data \<Rightarrow> Inr (Some data)))"

text \<open>
  The \<open>for\<close> loop of \<open>pollOnce\<close>. An error thrown in the body, by the fetch or by
  \<open>processSnapshot\<close>, leaves the loop: the result carries it, with the events and the
  database up to that point.
\<close>

fun pollBrackets ::
  "env \<Rightarrow> string \<Rightarrow> nat \<Rightarrow> string list \<Rightarrow> db \<Rightarrow> event list \<times> error option \<times> db" where
  "pollBrackets e token characterId [] d = ([], None, d)"
| "pollBrackets e token characterId (b # bs) d =
     (case fetchPvPBracket (bracket_answer e token b) of
        Inl err \<Rightarrow> ([Request b], Some err, d)
      | Inr None \<Rightarrow>
          (case pollBrackets e token characterId bs d of
             (tr, r, d') \<Rightarrow> (Request b # LogNoData b # tr, r, d'))
      | Inr (Some data) \<Rightarrow>
          (case processSnapshot d (fst (insert_time e b)) (snd (insert_time e b))
                  characterId b data of
             (Inl err, d1) \<Rightarrow>
               ([Request b, LogRating b (rating data) (played (season_match_statistics data))],
                Some err, d1)
           | (Inr result, d1) \<Rightarrow>
               (case pollBrackets e token characterId bs d1 of
                  (tr, r, d') \<Rightarrow>
                    (Request b # LogRating b (rating data) (played (season_match_statistics data))
                       # (if changed result then [LogChange (ratingChange result)] else []) @ tr,
                     r, d'))))"

text \<open>
  \<open>pollOnce\<close>: one \<open>try\<close> around the token, the character and the whole loop; the
  \<open>catch\<close> writes the error and the poll ends.
\<close>

definition pollOnce :: "(string \<Rightarrow> string) \<Rightarrow> env \<Rightarrow> db \<Rightarrow> event list \<times> db" where
  "pollOnce toLowerCase e d =
     (case getAccessToken (token_answer e) of
        Inl err \<Rightarrow> ([LogError err], d)
      | Inr token \<Rightarrow>
          (case getOrCreateCharacter toLowerCase d
                  (characterName CONFIG) (realmSlug CONFIG) (cfg_region CONFIG) of
             (Inl err, d0) \<Rightarrow> ([LogError err], d0)
           | (Inr characterId, d0) \<Rightarrow>
               (case pollBrackets e token characterId (brackets CONFIG) d0 of
                  (tr, None, d1) \<Rightarrow> (tr, d1)
                | (tr, Some err, d1) \<Rightarrow> (tr @ [LogError err], d1))))"

text \<open>The bracket requests among the events, in order.\<close>

fun requests :: "event list \<Rightarrow> string list" where
  "requests [] = []"
| "requests (Request b # tr) = b # requests tr"
| "requests (ev # tr) = requests tr"

text \<open>
  What processing means for one bracket of a poll: when its request is answered with
  data, \<open>processSnapshot\<close> on that data; otherwise nothing.
\<close>

definition has_data :: "env \<Rightarrow> string \<Rightarrow> string \<Rightarrow> bool" where
  "has_data e token b =
     (case fetchPvPBracket (bracket_answer e token b) of
        Inr (Some data) \<Rightarrow> True
      | _ \<Rightarrow> False)"

definition process_fetched :: "env \<Rightarrow> string \<Rightarrow> nat \<Rightarrow> db \<Rightarrow> string \<Rightarrow> db" where
  "process_fetched e token characterId d b =
     (case fetchPvPBracket (bracket_answer e token b) of
        Inr (Some data) \<Rightarrow>
          snd (processSnapshot d (fst (insert_time e b)) (snd (insert_time e b))
                 characterId b data)
      | _ \<Rightarrow> d)"

section \<open>Runs of the tracker\<close>

text \<open>
  The tracker writes to the database through \<open>getOrCreateCharacter\<close> and
  \<open>processSnapshot\<close> only, both from \<open>pollOnce\<close>. A run is any sequence of these
  from the empty database; a call that throws leaves the database as it stood at the
  throw.
\<close>

datatype op =
  Resolve string string string
  | Process timestamp timestamp nat string PvPBracketData
  | Poll env

fun step :: "(string \<Rightarrow> string) \<Rightarrow> db \<Rightarrow> op \<Rightarrow> db" where
  "step toLowerCase d (Resolve n r g) = snd (getOrCreateCharacter toLowerCase d n r g)"
| "step toLowerCase d (Process now now' characterId b data) =
     snd (processSnapshot d now now' characterId b data)"
| "step toLowerCase d (Poll e) = snd (pollOnce toLowerCase e d)"

definition run :: "(string \<Rightarrow> string) \<Rightarrow> op list \<Rightarrow> db" where
  "run toLowerCase ops = foldl (step toLowerCase) init_db ops"

text \<open>The ratings that a step feeds into the database are in the exact range.\<close>

fun op_in_exact_range :: "op \<Rightarrow> bool" where
  "op_in_exact_range (Resolve n r g) = True"
| "op_in_exact_range (Process now now' characterId b data) = in_exact_range (rating data)"
| "op_in_exact_range (Poll e) =
     (\<forall>token b status data.
        bracket_answer e token b = Response status (JsonData data) \<longrightarrow>
          in_exact_range (rating data))"

section \<open>Example data\<close>

text \<open>
  On strings of ASCII characters \<open>toLowerCase\<close> lowers the letters \<open>A\<close> to \<open>Z\<close> and
  leaves every other character; the examples, whose names are ASCII, run with this
  function.
\<close>

definition ascii_lower_char :: "char \<Rightarrow> char" where
  "ascii_lower_char c =
     (if 65 \<le> (of_char c :: nat) \<and> (of_char c :: nat) \<le> 90
      then char_of ((of_char c :: nat) + 32) else c)"

definition ascii_lower :: "string \<Rightarrow> string" where
  "ascii_lower s = map ascii_lower_char s"

text \<open>
  The fetches of the end-to-end scenario: rating 1500 after 10 games (6 won, 4 lost),
  then rating 1516 after 12 games (7 won, 5 lost). A third one has more games played
  but fewer games won than the first, as an upstream inconsistency would; a fourth has
  two more games played and the rating unchanged.
\<close>

definition first_fetch :: PvPBracketData where
  "first_fetch = \<lparr>rating = 1500,
                  season_match_statistics = \<lparr>played = 10, won = 6, lost = 4\<rparr>,
                  weekly_match_statistics = \<lparr>played = 4, won = 3, lost = 1\<rparr>\<rparr>"

definition second_fetch :: PvPBracketData where
  "second_fetch = \<lparr>rating = 1516,
                   season_match_statistics = \<lparr>played = 12, won = 7, lost = 5\<rparr>,
                   weekly_match_statistics = \<lparr>played = 6, won = 4, lost = 2\<rparr>\<rparr>"

definition inconsistent_fetch :: PvPBracketData where
  "inconsistent_fetch = \<lparr>rating = 1490,
                         season_match_statistics = \<lparr>played = 12, won = 5, lost = 4\<rparr>,
                         weekly_match_statistics = \<lparr>played = 6, won = 2, lost = 1\<rparr>\<rparr>"

definition level_fetch :: PvPBracketData where
  "level_fetch = \<lparr>rating = 1500,
                  season_match_statistics = \<lparr>played = 12, won = 7, lost = 5\<rparr>,
                  weekly_match_statistics = \<lparr>played = 6, won = 4, lost = 2\<rparr>\<rparr>"

text \<open>The database after the configured character was resolved: it has id 1.\<close>

definition db_resolved :: db where
  "db_resolved =
     snd (getOrCreateCharacter ascii_lower init_db ''bigbrainwiz'' ''malganis'' ''us'')"

text \<open>Then the first fetch was processed at second 100.\<close>

definition db_one_snapshot :: db where
  "db_one_snapshot =
     snd (processSnapshot db_resolved 100 100 1 ''shuffle-priest-shadow'' first_fetch)"

text \<open>
  Then the second fetch was processed within the same second as the first: two
  snapshots of the pair with equal timestamps.
\<close>

definition db_tied :: db where
  "db_tied =
     snd (processSnapshot db_one_snapshot 100 100 1 ''shuffle-priest-shadow'' second_fetch)"

text \<open>Or else the second fetch was processed five minutes after the first.\<close>

definition db_later :: db where
  "db_later =
     snd (processSnapshot db_one_snapshot 400 400 1 ''shuffle-priest-shadow'' second_fetch)"

text \<open>
  A network where the token endpoint answers, the request for the first configured
  bracket gets status 500 and every other bracket request gets the first fetch.
\<close>

definition failing_env :: env where
  "failing_env =
     \<lparr>token_answer = TokenResponse 200 ''token'',
      bracket_answer =
        (\<lambda>token b. if b = ''shuffle-priest-shadow'' then Response 500 JsonNull
                    else Response 200 (JsonData first_fetch)),
      insert_time = (\<lambda>b. (100, 100))\<rparr>"

text \<open>
  A network where the request for the first configured bracket gets the first fetch and
  every other bracket request gets status 500.
\<close>

definition late_failing_env :: env where
  "late_failing_env =
     \<lparr>token_answer = TokenResponse 200 ''token'',
      bracket_answer =
        (\<lambda>token b. if b = ''shuffle-priest-shadow'' then Response 200 (JsonData first_fetch)
                    else Response 500 JsonNull),
      insert_time = (\<lambda>b. (100, 100))\<rparr>"

text \<open>A run that records one change in each of two brackets of the character.\<close>

definition two_bracket_ops :: "op list" where
  "two_bracket_ops =
     [Resolve ''bigbrainwiz'' ''malganis'' ''us'',
      Process 100 100 1 ''blitz'' first_fetch,
      Process 200 201 1 ''blitz'' second_fetch,
      Process 100 100 1 ''shuffle'' first_fetch,
      Process 200 200 1 ''shuffle'' inconsistent_fetch]"

text \<open>A run that records a change of rating zero.\<close>

definition level_ops :: "op list" where
  "level_ops =
     [Resolve ''bigbrainwiz'' ''malganis'' ''us'',
      Process 100 100 1 ''blitz'' first_fetch,
      Process 200 200 1 ''blitz'' level_fetch]"

text \<open>The columns of \<open>UNIQUE(name, realm_slug, region)\<close>.\<close>

definition triple :: "character_row \<Rightarrow> string \<times> string \<times> string" where
  "triple c = (name c, realm_slug c, region c)"

section \<open>Auxiliary notions\<close>

text \<open>The row that \<open>saveSnapshot\<close> appends, and the database with it.\<close>

definition new_snapshot :: "db \<Rightarrow> timestamp \<Rightarrow> nat \<Rightarrow> string \<Rightarrow> PvPBracketData \<Rightarrow> snapshot_row" where
  "new_snapshot d now characterId b data =
     \<lparr>s_id = next_rowid (map s_id (pvp_snapshots d)),
      s_character_id = characterId,
      s_bracket = b,
      s_timestamp = now,
      s_rating = rating data,
      season_played = played (season_match_statistics data),
      season_won = won (season_match_statistics data),
      season_lost = lost (season_match_statistics data),
      weekly_played = played (weekly_match_statistics data),
      weekly_won = won (weekly_match_statistics data),
      weekly_lost = lost (weekly_match_statistics data)\<rparr>"

definition with_snapshot :: "db \<Rightarrow> timestamp \<Rightarrow> nat \<Rightarrow> string \<Rightarrow> PvPBracketData \<Rightarrow> db" where
  "with_snapshot d now characterId b data =
     d\<lparr>pvp_snapshots := pvp_snapshots d @ [new_snapshot d now characterId b data]\<rparr>"

text \<open>
  What every run with ratings in the exact range keeps: the two properties of the rows of
  the ledger, and stored ratings in the exact range.
\<close>

definition ledger_invariant :: "db \<Rightarrow> bool" where
  "ledger_invariant d =
     ((\<forall>r \<in> set (rating_changes d).
         0 < games_played r \<and> rating_change r = new_rating r - old_rating r) \<and>
      (\<forall>s \<in> set (pvp_snapshots d). in_exact_range (s_rating s)))"

section \<open>Subtraction of doubles\<close>

lemma double_round_exact: "\<bar>x\<bar> \<le> 2 ^ 53 \<Longrightarrow> double_round x = x"
  by (simp add: double_round_def)

lemma js_minus_exact:
  assumes "in_exact_range a" and "in_exact_range b"
  shows "js_minus a b = a - b"
proof -
  have "\<bar>a - b\<bar> \<le> \<bar>a\<bar> + \<bar>b\<bar>" by simp
  also have "\<dots> \<le> 2 ^ 52 + 2 ^ 52"
    using assms unfolding in_exact_range_def by (rule add_mono)
  finally have "\<bar>a - b\<bar> \<le> 2 ^ 53" by simp
  then show ?thesis unfolding js_minus_def by (rule double_round_exact)
qed

lemma double_round_beyond:
  assumes "2 ^ 53 < \<bar>x\<bar>"
  shows "\<exists>v. 0 < v \<and> double_round x = sgn x * v"
proof -
  let ?k = "nat (bitlen \<bar>x\<bar>) - 53"
  let ?q = "\<bar>x\<bar> div 2 ^ ?k"
  let ?r = "\<bar>x\<bar> mod 2 ^ ?k"
  let ?m = "if 2 ^ ?k < 2 * ?r then ?q + 1 else if 2 * ?r = 2 ^ ?k \<and> odd ?q then ?q + 1 else ?q"
  have pos: "0 < \<bar>x\<bar>" using assms by (smt (verit) zero_less_power)
  from bitlen_bounds [OF pos] have low: "2 ^ nat (bitlen \<bar>x\<bar> - 1) \<le> \<bar>x\<bar>" ..
  have "bitlen \<bar>x\<bar> \<ge> 1" using pos by (simp add: bitlen_alt_def)
  then have "?k \<le> nat (bitlen \<bar>x\<bar> - 1)" by simp
  then have "(2::int) ^ ?k \<le> 2 ^ nat (bitlen \<bar>x\<bar> - 1)"
    by (rule power_increasing) simp
  from this low have "(2::int) ^ ?k \<le> \<bar>x\<bar>" by (rule order_trans)
  then have "1 \<le> ?q"
    by (metis div_by_1 div_self mult.right_neutral zdiv_mono1 zero_less_numeral zero_less_power power_not_zero zero_neq_numeral)
  then have "0 < ?m" by simp
  then have "0 < ?m * 2 ^ ?k" by simp
  moreover have "double_round x = sgn x * (?m * 2 ^ ?k)"
    using assms by (simp add: double_round_def Let_def)
  ultimately show ?thesis by blast
qed

lemma double_round_pos: "0 < double_round x \<longleftrightarrow> 0 < x"
proof (cases "\<bar>x\<bar> \<le> 2 ^ 53")
  case True
  then show ?thesis by (simp add: double_round_exact)
next
  case False
  then obtain v where v: "0 < v" "double_round x = sgn x * v"
    using double_round_beyond [of x] by auto
  have "x \<noteq> 0" using False by auto
  then show ?thesis using v by (cases "0 < x") (simp_all add: sgn_if mult_pos_pos)
qed

lemma js_minus_pos: "0 < js_minus a b \<longleftrightarrow> b < a"
  by (simp add: js_minus_def double_round_pos)

text \<open>The difference of \<open>2^53\<close> and \<open>-1\<close> is not a double; the program computes \<open>2^53\<close>.\<close>

lemma double_round_example: "double_round (2 ^ 53 + 1) = 2 ^ 53"
  by code_simp

lemma js_minus_example: "js_minus (2 ^ 53) (- 1) = 2 ^ 53"
  by code_simp

section \<open>The latest snapshot\<close>

lemma kept_in_set:
  "fold (\<lambda>r kept. if s_timestamp kept < s_timestamp r then r else kept) xs x \<in> set (x # xs)"
  by (induction xs arbitrary: x) auto

lemma kept_ge_start:
  "s_timestamp x \<le> s_timestamp (fold (\<lambda>r kept. if s_timestamp kept < s_timestamp r then r else kept) xs x)"
proof (induction xs arbitrary: x)
  case Nil
  show ?case by simp
next
  case (Cons y ys)
  show ?case
  proof (cases "s_timestamp x < s_timestamp y")
    case True
    then show ?thesis using Cons.IH [of y] by simp
  next
    case False
    then show ?thesis using Cons.IH [of x] by simp
  qed
qed

lemma kept_greatest:
  "y \<in> set (x # xs) \<Longrightarrow>
   s_timestamp y \<le> s_timestamp (fold (\<lambda>r kept. if s_timestamp kept < s_timestamp r then r else kept) xs x)"
proof (induction xs arbitrary: x)
  case Nil
  then show ?case by simp
next
  case (Cons z zs)
  show ?case
  proof (cases "s_timestamp x < s_timestamp z")
    case True
    have "y = x \<or> y \<in> set (z # zs)" using Cons.prems by auto
    then show ?thesis
    proof
      assume "y = x"
      then have "s_timestamp y \<le> s_timestamp z" using True by simp
      also have "\<dots> \<le> s_timestamp (fold (\<lambda>r kept. if s_timestamp kept < s_timestamp r then r else kept) zs z)"
        by (rule kept_ge_start)
      finally show ?thesis using True by simp
    next
      assume "y \<in> set (z # zs)"
      then show ?thesis using Cons.IH [of z] True by simp
    qed
  next
    case False
    have "y = z \<or> y \<in> set (x # zs)" using Cons.prems by auto
    then show ?thesis
    proof
      assume "y = z"
      then have "s_timestamp y \<le> s_timestamp x" using False by simp
      also have "\<dots> \<le> s_timestamp (fold (\<lambda>r kept. if s_timestamp kept < s_timestamp r then r else kept) zs x)"
        by (rule kept_ge_start)
      finally show ?thesis using False by simp
    next
      assume "y \<in> set (x # zs)"
      then show ?thesis using Cons.IH [of x] False by simp
    qed
  qed
qed

lemma kept_first_greatest:
  "\<exists>pre post. x # xs =
      pre @ fold (\<lambda>r kept. if s_timestamp kept < s_timestamp r then r else kept) xs x # post \<and>
     (\<forall>p \<in> set pre. s_timestamp p <
        s_timestamp (fold (\<lambda>r kept. if s_timestamp kept < s_timestamp r then r else kept) xs x))"
proof (induction xs arbitrary: x)
  case Nil
  have "[x] = [] @ x # []" by simp
  then show ?case by (simp del: append_Nil) (metis empty_iff empty_set append_Nil)
next
  case (Cons y ys)
  let ?f = "\<lambda>r kept. if s_timestamp kept < s_timestamp r then r else kept"
  show ?case
  proof (cases "s_timestamp x < s_timestamp y")
    case True
    obtain pre post where d: "y # ys = pre @ fold ?f ys y # post"
      and o: "\<forall>p \<in> set pre. s_timestamp p < s_timestamp (fold ?f ys y)"
      using Cons.IH [of y] by blast
    have "s_timestamp x < s_timestamp (fold ?f ys y)"
      using True kept_ge_start [of y ys] by simp
    then have "\<forall>p \<in> set (x # pre). s_timestamp p < s_timestamp (fold ?f ys y)"
      using o by simp
    moreover have "x # y # ys = (x # pre) @ fold ?f ys y # post"
      using d by simp
    ultimately have "\<exists>pre' post'. x # y # ys = pre' @ fold ?f ys y # post' \<and>
        (\<forall>p \<in> set pre'. s_timestamp p < s_timestamp (fold ?f ys y))"
      by blast
    then show ?thesis using True by simp
  next
    case False
    obtain pre post where d: "x # ys = pre @ fold ?f ys x # post"
      and o: "\<forall>p \<in> set pre. s_timestamp p < s_timestamp (fold ?f ys x)"
      using Cons.IH [of x] by blast
    have "\<exists>pre' post'. x # y # ys = pre' @ fold ?f ys x # post' \<and>
        (\<forall>p \<in> set pre'. s_timestamp p < s_timestamp (fold ?f ys x))"
    proof (cases pre)
      case Nil
      then have k: "x = fold ?f ys x"
        using d by auto
      show ?thesis
        by (rule exI [of _ "[]"], rule exI [of _ "y # ys"]) (simp add: k [symmetric])
    next
      case (Cons p ps)
      then have px: "p = x" and rest: "ys = ps @ fold ?f ys x # post"
        using d by auto
      have "s_timestamp x < s_timestamp (fold ?f ys x)"
        using o Cons px by simp
      then have "\<forall>q \<in> set (x # y # ps). s_timestamp q < s_timestamp (fold ?f ys x)"
        using o Cons False by auto
      moreover have "x # y # ys = (x # y # ps) @ fold ?f ys x # post"
        using rest by simp
      ultimately show ?thesis by blast
    qed
    then show ?thesis using False by simp
  qed
qed

lemma limit_1_None_iff: "order_by_timestamp_desc_limit_1 xs = None \<longleftrightarrow> xs = []"
  by (cases xs) simp_all

lemma limit_1_in_set: "order_by_timestamp_desc_limit_1 xs = Some l \<Longrightarrow> l \<in> set xs"
  by (cases xs) (use kept_in_set in auto)

lemma limit_1_greatest:
  "order_by_timestamp_desc_limit_1 xs = Some l \<Longrightarrow> y \<in> set xs \<Longrightarrow> s_timestamp y \<le> s_timestamp l"
  by (cases xs) (use kept_greatest in auto)

text \<open>
  What the query returns in full: the first, in rowid order, of the rows with the greatest
  timestamp. Every row before it is strictly older, no row after it is newer.
\<close>

lemma limit_1_first_greatest:
  assumes "order_by_timestamp_desc_limit_1 rows = Some l"
  shows "\<exists>pre post. rows = pre @ l # post \<and>
           (\<forall>p \<in> set pre. s_timestamp p < s_timestamp l) \<and>
           (\<forall>q \<in> set post. s_timestamp q \<le> s_timestamp l)"
proof (cases rows)
  case Nil
  then show ?thesis using assms by simp
next
  case (Cons x xs)
  then have l: "l = fold (\<lambda>r kept. if s_timestamp kept < s_timestamp r then r else kept) xs x"
    using assms by simp
  obtain pre post where d: "rows = pre @ l # post"
    and o: "\<forall>p \<in> set pre. s_timestamp p < s_timestamp l"
    using kept_first_greatest [of x xs] Cons l by auto
  have "\<forall>q \<in> set rows. s_timestamp q \<le> s_timestamp l"
    using limit_1_greatest [OF assms] by blast
  then have "\<forall>q \<in> set post. s_timestamp q \<le> s_timestamp l"
    using d by simp
  then show ?thesis using d o by blast
qed

lemma getLatestSnapshot_first_greatest:
  assumes "getLatestSnapshot d cid b = Some l"
  shows "\<exists>pre post.
           filter (\<lambda>r. s_character_id r = cid \<and> s_bracket r = b) (pvp_snapshots d) =
             pre @ l # post \<and>
           (\<forall>p \<in> set pre. s_timestamp p < s_timestamp l) \<and>
           (\<forall>q \<in> set post. s_timestamp q \<le> s_timestamp l)"
  using assms unfolding getLatestSnapshot_def by (rule limit_1_first_greatest)

lemma getLatestSnapshot_None_iff:
  "getLatestSnapshot d cid b = None \<longleftrightarrow>
     filter (\<lambda>r. s_character_id r = cid \<and> s_bracket r = b) (pvp_snapshots d) = []"
  by (simp add: getLatestSnapshot_def limit_1_None_iff)

lemma getLatestSnapshot_row:
  "getLatestSnapshot d cid b = Some l \<Longrightarrow>
     l \<in> set (pvp_snapshots d) \<and> s_character_id l = cid \<and> s_bracket l = b"
  using limit_1_in_set [of "filter (\<lambda>r. s_character_id r = cid \<and> s_bracket r = b) (pvp_snapshots d)" l]
  by (simp add: getLatestSnapshot_def)

lemma getLatestSnapshot_greatest:
  "getLatestSnapshot d cid b = Some l \<Longrightarrow> y \<in> set (pvp_snapshots d) \<Longrightarrow>
     s_character_id y = cid \<Longrightarrow> s_bracket y = b \<Longrightarrow> s_timestamp y \<le> s_timestamp l"
  using limit_1_greatest [of "filter (\<lambda>r. s_character_id r = cid \<and> s_bracket r = b) (pvp_snapshots d)" l y]
  by (simp add: getLatestSnapshot_def)

lemma kept_last_if_newer:
  "\<forall>y \<in> set (x # xs). s_timestamp y < s_timestamp z \<Longrightarrow>
    fold (\<lambda>r kept. if s_timestamp kept < s_timestamp r then r else kept) (xs @ [z]) x = z"
  using kept_in_set [of xs x] by (simp del: set_simps)

lemma getLatestSnapshot_after_save:
  assumes "\<forall>y \<in> set (pvp_snapshots d).
             s_character_id y = cid \<and> s_bracket y = b \<longrightarrow> s_timestamp y < now"
    and "saveSnapshot d now cid b data = Inr d1"
  shows "getLatestSnapshot d1 cid b = Some (last (pvp_snapshots d1))"
proof -
  have d1: "pvp_snapshots d1 = pvp_snapshots d @
      [\<lparr>s_id = next_rowid (map s_id (pvp_snapshots d)), s_character_id = cid, s_bracket = b,
        s_timestamp = now, s_rating = rating data,
        season_played = played (season_match_statistics data),
        season_won = won (season_match_statistics data),
        season_lost = lost (season_match_statistics data),
        weekly_played = played (weekly_match_statistics data),
        weekly_won = won (weekly_match_statistics data),
        weekly_lost = lost (weekly_match_statistics data)\<rparr>]"
    using assms(2) by (auto simp: saveSnapshot_def split: if_splits)
  show ?thesis
  proof (cases "filter (\<lambda>r. s_character_id r = cid \<and> s_bracket r = b) (pvp_snapshots d)")
    case Nil
    then show ?thesis by (simp add: getLatestSnapshot_def d1)
  next
    case (Cons x xs)
    have "set (x # xs) =
        set (filter (\<lambda>r. s_character_id r = cid \<and> s_bracket r = b) (pvp_snapshots d))"
      using Cons by simp
    then have "set (x # xs) \<subseteq>
        {r \<in> set (pvp_snapshots d). s_character_id r = cid \<and> s_bracket r = b}"
      by (simp only: set_filter)
    then have "\<forall>y \<in> set (x # xs). s_timestamp y < now"
      using assms(1) by blast
    then have "\<forall>y \<in> set (x # xs). s_timestamp y < s_timestamp (last (pvp_snapshots d1))"
      by (simp add: d1)
    from kept_last_if_newer [OF this] Cons
    show ?thesis by (simp add: getLatestSnapshot_def d1)
  qed
qed

section \<open>Change detection\<close>

lemma saveSnapshot_exists:
  "character_exists d cid \<Longrightarrow> saveSnapshot d now cid b data = Inr (with_snapshot d now cid b data)"
  by (simp add: saveSnapshot_def with_snapshot_def new_snapshot_def)

lemma saveSnapshot_missing:
  "\<not> character_exists d cid \<Longrightarrow> saveSnapshot d now cid b data = Inl ForeignKeyError"
  by (simp add: saveSnapshot_def)

lemma with_snapshot_tables:
  "characters (with_snapshot d now cid b data) = characters d"
  "rating_changes (with_snapshot d now cid b data) = rating_changes d"
  "pvp_snapshots (with_snapshot d now cid b data) = pvp_snapshots d @ [new_snapshot d now cid b data]"
  "character_exists (with_snapshot d now cid b data) i = character_exists d i"
  by (simp_all add: with_snapshot_def character_exists_def)

text \<open>
  For a character id with no row in \<open>characters\<close> the insert of the snapshot throws:
  the call ends with the error and the database is as it was.
\<close>

lemma processSnapshot_foreign_key:
  "\<not> character_exists d cid \<Longrightarrow> processSnapshot d now now' cid b cur = (Inl ForeignKeyError, d)"
  by (simp add: processSnapshot_def saveSnapshot_missing)

lemma processSnapshot_first:
  assumes "character_exists d cid" and "getLatestSnapshot d cid b = None"
  shows "processSnapshot d now now' cid b cur =
           (Inr \<lparr>changed = False, ratingChange = None\<rparr>, with_snapshot d now cid b cur)"
  using assms by (simp add: processSnapshot_def saveSnapshot_exists)

lemma processSnapshot_same:
  assumes "character_exists d cid" and "getLatestSnapshot d cid b = Some l"
    and "played (season_match_statistics cur) \<le> season_played l"
  shows "processSnapshot d now now' cid b cur =
           (Inr \<lparr>changed = False, ratingChange = None\<rparr>, with_snapshot d now cid b cur)"
  using assms by (simp add: processSnapshot_def saveSnapshot_exists Let_def js_minus_pos)

lemma processSnapshot_more:
  assumes "character_exists d cid" and "getLatestSnapshot d cid b = Some l"
    and "season_played l < played (season_match_statistics cur)"
  shows "processSnapshot d now now' cid b cur =
           (Inr \<lparr>changed = True, ratingChange = Some (js_minus (rating cur) (s_rating l))\<rparr>,
            (with_snapshot d now cid b cur)
              \<lparr>rating_changes := rating_changes d @
                 [\<lparr>timestamp = now',
                   bracket = b,
                   old_rating = s_rating l,
                   new_rating = rating cur,
                   rating_change = js_minus (rating cur) (s_rating l),
                   games_played = js_minus (played (season_match_statistics cur)) (season_played l),
                   games_won = js_minus (won (season_match_statistics cur)) (season_won l),
                   games_lost = js_minus (lost (season_match_statistics cur)) (season_lost l),
                   rc_id = next_rowid (map rc_id (rating_changes d)),
                   rc_character_id = cid\<rparr>]\<rparr>)"
  using assms
  by (simp add: processSnapshot_def saveSnapshot_exists Let_def js_minus_pos
      recordRatingChange_def with_snapshot_tables)

lemma ascii_lower_names:
  "ascii_lower ''bigbrainwiz'' = ''bigbrainwiz''"
  "ascii_lower ''malganis'' = ''malganis''"
  "ascii_lower ''us'' = ''us''"
  by code_simp+

lemma db_resolved_eq:
  "db_resolved =
     \<lparr>characters = [\<lparr>c_id = 1, name = ''bigbrainwiz'', realm_slug = ''malganis'', region = ''us''\<rparr>],
      pvp_snapshots = [], rating_changes = []\<rparr>"
  by (simp add: db_resolved_def getOrCreateCharacter_def insert_or_ignore_character_def
      init_db_def same_character_def next_rowid_def ascii_lower_names)

lemma db_one_snapshot_eq:
  "db_one_snapshot =
     \<lparr>characters = [\<lparr>c_id = 1, name = ''bigbrainwiz'', realm_slug = ''malganis'', region = ''us''\<rparr>],
      pvp_snapshots =
        [\<lparr>s_id = 1, s_character_id = 1, s_bracket = ''shuffle-priest-shadow'',
          s_timestamp = 100, s_rating = 1500, season_played = 10, season_won = 6,
          season_lost = 4, weekly_played = 4, weekly_won = 3, weekly_lost = 1\<rparr>],
      rating_changes = []\<rparr>"
  by (simp add: db_one_snapshot_def db_resolved_eq processSnapshot_def getLatestSnapshot_def
      saveSnapshot_def character_exists_def first_fetch_def next_rowid_def)

lemma latest_db_one_snapshot:
  "getLatestSnapshot db_one_snapshot 1 ''shuffle-priest-shadow'' =
     Some \<lparr>s_id = 1, s_character_id = 1, s_bracket = ''shuffle-priest-shadow'',
          s_timestamp = 100, s_rating = 1500, season_played = 10, season_won = 6,
          season_lost = 4, weekly_played = 4, weekly_won = 3, weekly_lost = 1\<rparr>"
  by (simp add: db_one_snapshot_eq getLatestSnapshot_def)

lemma exists_db_one_snapshot: "character_exists db_one_snapshot 1"
  by (simp add: db_one_snapshot_eq character_exists_def)

lemma db_tied_eq:
  "db_tied =
     \<lparr>characters = [\<lparr>c_id = 1, name = ''bigbrainwiz'', realm_slug = ''malganis'', region = ''us''\<rparr>],
      pvp_snapshots =
        [\<lparr>s_id = 1, s_character_id = 1, s_bracket = ''shuffle-priest-shadow'',
          s_timestamp = 100, s_rating = 1500, season_played = 10, season_won = 6,
          season_lost = 4, weekly_played = 4, weekly_won = 3, weekly_lost = 1\<rparr>,
         \<lparr>s_id = 2, s_character_id = 1, s_bracket = ''shuffle-priest-shadow'',
          s_timestamp = 100, s_rating = 1516, season_played = 12, season_won = 7,
          season_lost = 5, weekly_played = 6, weekly_won = 4, weekly_lost = 2\<rparr>],
      rating_changes =
        [\<lparr>timestamp = 100, bracket = ''shuffle-priest-shadow'', old_rating = 1500,
          new_rating = 1516, rating_change = 16, games_played = 2, games_won = 1,
          games_lost = 1, rc_id = 1, rc_character_id = 1\<rparr>]\<rparr>"
proof -
  have more: "season_played \<lparr>s_id = 1, s_character_id = 1, s_bracket = ''shuffle-priest-shadow'',
          s_timestamp = 100, s_rating = 1500, season_played = 10, season_won = 6,
          season_lost = 4, weekly_played = 4, weekly_won = 3, weekly_lost = 1\<rparr>
        < played (season_match_statistics second_fetch)"
    by (simp add: second_fetch_def)
  show ?thesis
    unfolding db_tied_def
      processSnapshot_more [OF exists_db_one_snapshot latest_db_one_snapshot more]
    by (simp add: with_snapshot_def new_snapshot_def db_one_snapshot_eq second_fetch_def
        next_rowid_def js_minus_def double_round_def)
qed

lemma latest_db_tied:
  "getLatestSnapshot db_tied 1 ''shuffle-priest-shadow'' =
     Some \<lparr>s_id = 1, s_character_id = 1, s_bracket = ''shuffle-priest-shadow'',
          s_timestamp = 100, s_rating = 1500, season_played = 10, season_won = 6,
          season_lost = 4, weekly_played = 4, weekly_won = 3, weekly_lost = 1\<rparr>"
  by (simp add: db_tied_eq getLatestSnapshot_def)

lemma exists_db_tied: "character_exists db_tied 1"
  by (simp add: db_tied_eq character_exists_def)

lemma db_later_eq:
  "db_later =
     \<lparr>characters = [\<lparr>c_id = 1, name = ''bigbrainwiz'', realm_slug = ''malganis'', region = ''us''\<rparr>],
      pvp_snapshots =
        [\<lparr>s_id = 1, s_character_id = 1, s_bracket = ''shuffle-priest-shadow'',
          s_timestamp = 100, s_rating = 1500, season_played = 10, season_won = 6,
          season_lost = 4, weekly_played = 4, weekly_won = 3, weekly_lost = 1\<rparr>,
         \<lparr>s_id = 2, s_character_id = 1, s_bracket = ''shuffle-priest-shadow'',
          s_timestamp = 400, s_rating = 1516, season_played = 12, season_won = 7,
          season_lost = 5, weekly_played = 6, weekly_won = 4, weekly_lost = 2\<rparr>],
      rating_changes =
        [\<lparr>timestamp = 400, bracket = ''shuffle-priest-shadow'', old_rating = 1500,
          new_rating = 1516, rating_change = 16, games_played = 2, games_won = 1,
          games_lost = 1, rc_id = 1, rc_character_id = 1\<rparr>]\<rparr>"
proof -
  have more: "season_played \<lparr>s_id = 1, s_character_id = 1, s_bracket = ''shuffle-priest-shadow'',
          s_timestamp = 100, s_rating = 1500, season_played = 10, season_won = 6,
          season_lost = 4, weekly_played = 4, weekly_won = 3, weekly_lost = 1\<rparr>
        < played (season_match_statistics second_fetch)"
    by (simp add: second_fetch_def)
  show ?thesis
    unfolding db_later_def
      processSnapshot_more [OF exists_db_one_snapshot latest_db_one_snapshot more]
    by (simp add: with_snapshot_def new_snapshot_def db_one_snapshot_eq second_fetch_def
        next_rowid_def js_minus_def double_round_def)
qed

lemma latest_db_later:
  "getLatestSnapshot db_later 1 ''shuffle-priest-shadow'' =
     Some \<lparr>s_id = 2, s_character_id = 1, s_bracket = ''shuffle-priest-shadow'',
          s_timestamp = 400, s_rating = 1516, season_played = 12, season_won = 7,
          season_lost = 5, weekly_played = 6, weekly_won = 4, weekly_lost = 2\<rparr>"
  by (simp add: db_later_eq getLatestSnapshot_def)

lemma exists_db_later: "character_exists db_later 1"
  by (simp add: db_later_eq character_exists_def)

text \<open>
  Claim C1. For a character that exists, when the previous snapshot of the pair has fewer
  season games played than the fetched data, \<open>processSnapshot\<close> returns
  \<open>changed = true\<close> with the difference of the ratings and appends one row to
  \<open>rating_changes\<close>: the previous rating, the fetched rating, their difference, and
  the differences of the played, won and lost counts as they come. Nothing relates the
  won and lost differences to the played difference; they may be negative. The numbers
  are in the range where the subtraction of doubles is exact.
\<close>

theorem processSnapshot_activity:
  assumes "character_exists d characterId"
    and "getLatestSnapshot d characterId b = Some l"
    and "season_played l < played (season_match_statistics cur)"
    and "data_in_exact_range cur"
    and "snapshot_in_exact_range l"
  shows "fst (processSnapshot d now now' characterId b cur) =
           Inr \<lparr>changed = True, ratingChange = Some (rating cur - s_rating l)\<rparr> \<and>
         rating_changes (snd (processSnapshot d now now' characterId b cur)) =
           rating_changes d @
             [\<lparr>timestamp = now',
               bracket = b,
               old_rating = s_rating l,
               new_rating = rating cur,
               rating_change = rating cur - s_rating l,
               games_played = played (season_match_statistics cur) - season_played l,
               games_won = won (season_match_statistics cur) - season_won l,
               games_lost = lost (season_match_statistics cur) - season_lost l,
               rc_id = next_rowid (map rc_id (rating_changes d)),
               rc_character_id = characterId\<rparr>]"
proof -
  have "js_minus (rating cur) (s_rating l) = rating cur - s_rating l"
    and "js_minus (played (season_match_statistics cur)) (season_played l) =
           played (season_match_statistics cur) - season_played l"
    and "js_minus (won (season_match_statistics cur)) (season_won l) =
           won (season_match_statistics cur) - season_won l"
    and "js_minus (lost (season_match_statistics cur)) (season_lost l) =
           lost (season_match_statistics cur) - season_lost l"
    using assms(4,5)
    by (simp_all add: data_in_exact_range_def snapshot_in_exact_range_def js_minus_exact)
  then show ?thesis
    by (simp add: processSnapshot_more [OF assms(1,2,3)])
qed

text \<open>
  After the first fetch, a fetch with two more games played, one game fewer won and no
  game more lost is recorded as it is.
\<close>

theorem processSnapshot_activity_witness:
  "character_exists db_one_snapshot 1 \<and>
   getLatestSnapshot db_one_snapshot 1 ''shuffle-priest-shadow'' =
     Some \<lparr>s_id = 1, s_character_id = 1, s_bracket = ''shuffle-priest-shadow'',
          s_timestamp = 100, s_rating = 1500, season_played = 10, season_won = 6,
          season_lost = 4, weekly_played = 4, weekly_won = 3, weekly_lost = 1\<rparr> \<and>
   (10 :: int) < played (season_match_statistics inconsistent_fetch) \<and>
   data_in_exact_range inconsistent_fetch \<and>
   fst (processSnapshot db_one_snapshot 400 401 1 ''shuffle-priest-shadow'' inconsistent_fetch) =
     Inr \<lparr>changed = True, ratingChange = Some (- 10)\<rparr> \<and>
   rating_changes
     (snd (processSnapshot db_one_snapshot 400 401 1 ''shuffle-priest-shadow'' inconsistent_fetch)) =
     [\<lparr>timestamp = 401, bracket = ''shuffle-priest-shadow'', old_rating = 1500,
       new_rating = 1490, rating_change = - 10, games_played = 2, games_won = - 1,
       games_lost = 0, rc_id = 1, rc_character_id = 1\<rparr>]"
proof -
  let ?l = "\<lparr>s_id = 1, s_character_id = 1, s_bracket = ''shuffle-priest-shadow'',
          s_timestamp = 100, s_rating = 1500, season_played = 10, season_won = 6,
          season_lost = 4, weekly_played = 4, weekly_won = 3, weekly_lost = 1\<rparr>"
  have more: "season_played ?l < played (season_match_statistics inconsistent_fetch)"
    by (simp add: inconsistent_fetch_def)
  have data: "data_in_exact_range inconsistent_fetch"
    by (simp add: data_in_exact_range_def in_exact_range_def inconsistent_fetch_def)
  have snap: "snapshot_in_exact_range ?l"
    by (simp add: snapshot_in_exact_range_def in_exact_range_def)
  show ?thesis
    using processSnapshot_activity
        [OF exists_db_one_snapshot latest_db_one_snapshot more data snap, of 400 401]
      latest_db_one_snapshot exists_db_one_snapshot data
    by (simp add: inconsistent_fetch_def db_one_snapshot_eq next_rowid_def)
qed

text \<open>
  Claim C2. For a character that exists, when the fetched data has no more season games
  played than the previous snapshot of the pair (the same count, or a lower one after a
  season reset), \<open>processSnapshot\<close> returns \<open>changed = false\<close> and leaves
  \<open>rating_changes\<close> as it was, whatever the two ratings are.
\<close>

theorem processSnapshot_no_activity:
  assumes "character_exists d characterId"
    and "getLatestSnapshot d characterId b = Some l"
    and "played (season_match_statistics cur) \<le> season_played l"
  shows "fst (processSnapshot d now now' characterId b cur) =
           Inr \<lparr>changed = False, ratingChange = None\<rparr> \<and>
         rating_changes (snd (processSnapshot d now now' characterId b cur)) = rating_changes d"
  by (simp add: processSnapshot_same [OF assms] with_snapshot_tables)

text \<open>
  After the second fetch (12 games, rating 1516), neither the first fetch again (10 games,
  as after a reset) nor a fetch with 12 games and rating 1500 records anything, although
  the ratings differ.
\<close>

theorem processSnapshot_no_activity_witness:
  "character_exists db_later 1 \<and>
   played (season_match_statistics first_fetch) \<le> (12 :: int) \<and>
   played (season_match_statistics level_fetch) \<le> (12 :: int) \<and>
   getLatestSnapshot db_later 1 ''shuffle-priest-shadow'' =
     Some \<lparr>s_id = 2, s_character_id = 1, s_bracket = ''shuffle-priest-shadow'',
          s_timestamp = 400, s_rating = 1516, season_played = 12, season_won = 7,
          season_lost = 5, weekly_played = 6, weekly_won = 4, weekly_lost = 2\<rparr> \<and>
   fst (processSnapshot db_later 700 700 1 ''shuffle-priest-shadow'' first_fetch) =
     Inr \<lparr>changed = False, ratingChange = None\<rparr> \<and>
   fst (processSnapshot db_later 700 700 1 ''shuffle-priest-shadow'' level_fetch) =
     Inr \<lparr>changed = False, ratingChange = None\<rparr> \<and>
   rating_changes (snd (processSnapshot db_later 700 700 1 ''shuffle-priest-shadow'' first_fetch)) =
     rating_changes db_later"
proof -
  have reset: "played (season_match_statistics first_fetch) \<le>
      season_played \<lparr>s_id = 2, s_character_id = 1, s_bracket = ''shuffle-priest-shadow'',
          s_timestamp = 400, s_rating = 1516, season_played = 12, season_won = 7,
          season_lost = 5, weekly_played = 6, weekly_won = 4, weekly_lost = 2\<rparr>"
    by (simp add: first_fetch_def)
  have level: "played (season_match_statistics level_fetch) \<le>
      season_played \<lparr>s_id = 2, s_character_id = 1, s_bracket = ''shuffle-priest-shadow'',
          s_timestamp = 400, s_rating = 1516, season_played = 12, season_won = 7,
          season_lost = 5, weekly_played = 6, weekly_won = 4, weekly_lost = 2\<rparr>"
    by (simp add: level_fetch_def)
  show ?thesis
    using processSnapshot_no_activity [OF exists_db_later latest_db_later reset, of 700 700]
      processSnapshot_no_activity [OF exists_db_later latest_db_later level, of 700 700]
      latest_db_later exists_db_later
    by (simp add: level_fetch_def first_fetch_def)
qed

text \<open>
  Claim C5. For a character that exists, when the table holds no snapshot of the pair,
  \<open>processSnapshot\<close> returns \<open>changed = false\<close> for any fetched data, with no
  error, and the database it leaves is the one with the snapshot appended.
\<close>

theorem processSnapshot_first_snapshot:
  assumes "character_exists d characterId"
    and "\<forall>r \<in> set (pvp_snapshots d). s_character_id r \<noteq> characterId \<or> s_bracket r \<noteq> b"
  shows "processSnapshot d now now' characterId b cur =
           (Inr \<lparr>changed = False, ratingChange = None\<rparr>,
            d\<lparr>pvp_snapshots := pvp_snapshots d @
               [\<lparr>s_id = next_rowid (map s_id (pvp_snapshots d)),
                 s_character_id = characterId,
                 s_bracket = b,
                 s_timestamp = now,
                 s_rating = rating cur,
                 season_played = played (season_match_statistics cur),
                 season_won = won (season_match_statistics cur),
                 season_lost = lost (season_match_statistics cur),
                 weekly_played = played (weekly_match_statistics cur),
                 weekly_won = won (weekly_match_statistics cur),
                 weekly_lost = lost (weekly_match_statistics cur)\<rparr>]\<rparr>)"
proof -
  have "filter (\<lambda>r. s_character_id r = characterId \<and> s_bracket r = b) (pvp_snapshots d) = []"
    using assms(2) by (auto simp: filter_empty_conv)
  then have "getLatestSnapshot d characterId b = None"
    by (simp add: getLatestSnapshot_None_iff)
  from processSnapshot_first [OF assms(1) this] show ?thesis
    by (simp add: with_snapshot_def new_snapshot_def)
qed

text \<open>
  The first fetch on the database with the character resolved and nothing else; then a
  fetch for \<open>blitz-priest-shadow\<close> on the database that holds one snapshot, of
  \<open>shuffle-priest-shadow\<close>.
\<close>

theorem processSnapshot_first_snapshot_witness:
  "character_exists db_resolved 1 \<and>
   filter (\<lambda>r. s_character_id r = 1 \<and> s_bracket r = ''shuffle-priest-shadow'')
     (pvp_snapshots db_resolved) = [] \<and>
   processSnapshot db_resolved 100 100 1 ''shuffle-priest-shadow'' first_fetch =
     (Inr \<lparr>changed = False, ratingChange = None\<rparr>, db_one_snapshot) \<and>
   character_exists db_one_snapshot 1 \<and>
   filter (\<lambda>r. s_character_id r = 1 \<and> s_bracket r = ''blitz-priest-shadow'')
     (pvp_snapshots db_one_snapshot) = [] \<and>
   fst (processSnapshot db_one_snapshot 100 100 1 ''blitz-priest-shadow'' second_fetch) =
     Inr \<lparr>changed = False, ratingChange = None\<rparr> \<and>
   map s_id (pvp_snapshots
     (snd (processSnapshot db_one_snapshot 100 100 1 ''blitz-priest-shadow'' second_fetch))) =
     [1, 2]"
proof -
  have ex0: "character_exists db_resolved 1"
    by (simp add: db_resolved_eq character_exists_def)
  have none0: "\<forall>r \<in> set (pvp_snapshots db_resolved).
      s_character_id r \<noteq> 1 \<or> s_bracket r \<noteq> ''shuffle-priest-shadow''"
    by (simp add: db_resolved_eq)
  have none: "\<forall>r \<in> set (pvp_snapshots db_one_snapshot).
      s_character_id r \<noteq> 1 \<or> s_bracket r \<noteq> ''blitz-priest-shadow''"
    by (simp add: db_one_snapshot_eq)
  have first: "processSnapshot db_resolved 100 100 1 ''shuffle-priest-shadow'' first_fetch =
     (Inr \<lparr>changed = False, ratingChange = None\<rparr>, db_one_snapshot)"
    unfolding processSnapshot_first_snapshot [OF ex0 none0]
    by (simp add: db_one_snapshot_eq db_resolved_eq first_fetch_def next_rowid_def)
  show ?thesis
    using processSnapshot_first_snapshot [OF exists_db_one_snapshot none, of 100 100 second_fetch]
      first ex0 exists_db_one_snapshot
    by (simp add: db_one_snapshot_eq db_resolved_eq next_rowid_def)
qed

text \<open>
  Claim C10. For a character that exists, every call of \<open>processSnapshot\<close> returns a
  result and appends exactly one row to \<open>pvp_snapshots\<close>, built from the fetched
  data, keeping the rows that were there; it leaves \<open>characters\<close> as it was; whether
  it reports a change is decided by the latest snapshot of the database before the call,
  so never by the row it appends; and it appends exactly one row to \<open>rating_changes\<close>
  when it reports a change and none when it does not, keeping the rows that were there.
\<close>

theorem processSnapshot_frame:
  assumes "character_exists d characterId"
  shows "\<exists>res. fst (processSnapshot d now now' characterId b cur) = Inr res \<and>
     pvp_snapshots (snd (processSnapshot d now now' characterId b cur)) =
       pvp_snapshots d @
         [\<lparr>s_id = next_rowid (map s_id (pvp_snapshots d)),
           s_character_id = characterId,
           s_bracket = b,
           s_timestamp = now,
           s_rating = rating cur,
           season_played = played (season_match_statistics cur),
           season_won = won (season_match_statistics cur),
           season_lost = lost (season_match_statistics cur),
           weekly_played = played (weekly_match_statistics cur),
           weekly_won = won (weekly_match_statistics cur),
           weekly_lost = lost (weekly_match_statistics cur)\<rparr>] \<and>
     characters (snd (processSnapshot d now now' characterId b cur)) = characters d \<and>
     (changed res \<longleftrightarrow>
        (\<exists>l. getLatestSnapshot d characterId b = Some l \<and>
             season_played l < played (season_match_statistics cur))) \<and>
     (changed res \<longrightarrow>
        (\<exists>r. rating_changes (snd (processSnapshot d now now' characterId b cur)) =
               rating_changes d @ [r])) \<and>
     (\<not> changed res \<longrightarrow>
        rating_changes (snd (processSnapshot d now now' characterId b cur)) = rating_changes d)"
proof (cases "getLatestSnapshot d characterId b")
  case None
  show ?thesis
    by (simp add: processSnapshot_first [OF assms None] None with_snapshot_tables new_snapshot_def)
next
  case (Some l)
  show ?thesis
  proof (cases "season_played l < played (season_match_statistics cur)")
    case True
    show ?thesis
      by (simp add: processSnapshot_more [OF assms Some True] Some True with_snapshot_tables
          new_snapshot_def)
  next
    case False
    then have le: "played (season_match_statistics cur) \<le> season_played l" by simp
    show ?thesis
      by (simp add: processSnapshot_same [OF assms Some le] Some False with_snapshot_tables
          new_snapshot_def)
  qed
qed

text \<open>
  On the database with one snapshot the second fetch reports a change: one snapshot row
  and one rating change row are appended. On the database with the character resolved
  and nothing else the first fetch reports none.
\<close>

theorem processSnapshot_frame_witness:
  "character_exists db_one_snapshot 1 \<and>
   fst (processSnapshot db_one_snapshot 400 400 1 ''shuffle-priest-shadow'' second_fetch) =
     Inr \<lparr>changed = True, ratingChange = Some 16\<rparr> \<and>
   map s_id (pvp_snapshots
     (snd (processSnapshot db_one_snapshot 400 400 1 ''shuffle-priest-shadow'' second_fetch))) =
     [1, 2] \<and>
   characters (snd (processSnapshot db_one_snapshot 400 400 1 ''shuffle-priest-shadow'' second_fetch)) =
     characters db_one_snapshot \<and>
   length (rating_changes
     (snd (processSnapshot db_one_snapshot 400 400 1 ''shuffle-priest-shadow'' second_fetch))) = 1 \<and>
   character_exists db_resolved 1 \<and>
   fst (processSnapshot db_resolved 100 100 1 ''shuffle-priest-shadow'' first_fetch) =
     Inr \<lparr>changed = False, ratingChange = None\<rparr> \<and>
   rating_changes (snd (processSnapshot db_resolved 100 100 1 ''shuffle-priest-shadow'' first_fetch)) =
     []"
proof -
  have ex0: "character_exists db_resolved 1"
    by (simp add: db_resolved_eq character_exists_def)
  have more: "season_played \<lparr>s_id = 1, s_character_id = 1, s_bracket = ''shuffle-priest-shadow'',
          s_timestamp = 100, s_rating = 1500, season_played = 10, season_won = 6,
          season_lost = 4, weekly_played = 4, weekly_won = 3, weekly_lost = 1\<rparr>
        < played (season_match_statistics second_fetch)"
    by (simp add: second_fetch_def)
  have r1: "fst (processSnapshot db_one_snapshot 400 400 1 ''shuffle-priest-shadow'' second_fetch) =
     Inr \<lparr>changed = True, ratingChange = Some 16\<rparr>"
    unfolding processSnapshot_more [OF exists_db_one_snapshot latest_db_one_snapshot more]
    by (simp add: second_fetch_def js_minus_def double_round_def)
  have none: "getLatestSnapshot db_resolved 1 ''shuffle-priest-shadow'' = None"
    by (simp add: getLatestSnapshot_def db_resolved_eq)
  have r0: "fst (processSnapshot db_resolved 100 100 1 ''shuffle-priest-shadow'' first_fetch) =
     Inr \<lparr>changed = False, ratingChange = None\<rparr>"
    unfolding processSnapshot_first [OF ex0 none] by simp
  show ?thesis
    using processSnapshot_frame [OF exists_db_one_snapshot,
        of 400 400 "''shuffle-priest-shadow''" second_fetch]
      processSnapshot_frame [OF ex0, of 100 100 "''shuffle-priest-shadow''" first_fetch]
      r1 r0 ex0 exists_db_one_snapshot
    by (auto simp: db_one_snapshot_eq db_resolved_eq next_rowid_def)
qed

section \<open>The history of rating changes\<close>

lemma truncate_sel:
  "timestamp (RatingChange.truncate r) = timestamp r"
  "bracket (RatingChange.truncate r) = bracket r"
  by (simp_all add: RatingChange.truncate_def)

lemma sorted_getRatingChanges: "sorted (map timestamp (getRatingChanges d cid ob))"
proof -
  have "map timestamp (getRatingChanges d cid ob) =
        map timestamp (sort_key timestamp (sort_key bracket
          (filter (\<lambda>r. rc_character_id r = cid \<and>
                           (case ob of None \<Rightarrow> True
                            | Some x \<Rightarrow> if x = [] then True else bracket r = x))
                     (rating_changes d))))"
    by (simp add: getRatingChanges_def truncate_sel comp_def)
  then show ?thesis by (simp only: sorted_sort_key)
qed

lemma mset_getRatingChanges:
  "mset (getRatingChanges d cid None) =
     mset (map RatingChange.truncate (filter (\<lambda>r. rc_character_id r = cid) (rating_changes d)))"
  by (simp add: getRatingChanges_def)

lemma getRatingChanges_empty_bracket:
  "getRatingChanges d cid (Some []) = getRatingChanges d cid None"
  by (simp add: getRatingChanges_def)

lemma sort_key_same_bracket:
  "sort_key bracket (filter (\<lambda>r. bracket r = b) xs) = filter (\<lambda>r. bracket r = b) xs"
proof -
  have "sorted (map bracket (filter (\<lambda>r. bracket r = b) xs))"
    by (rule sorted_map_same)
  then show ?thesis by (rule sort_key_id_if_sorted)
qed

lemma getRatingChanges_filtered:
  assumes "b \<noteq> []"
  shows "getRatingChanges d cid (Some b) =
         filter (\<lambda>r. bracket r = b) (getRatingChanges d cid None)"
proof -
  let ?rows = "filter (\<lambda>r. rc_character_id r = cid) (rating_changes d)"
  have 1: "filter (\<lambda>r. rc_character_id r = cid \<and> bracket r = b) (rating_changes d) =
        filter (\<lambda>r. bracket r = b) ?rows"
    by (simp add: conj_commute)
  have "filter (\<lambda>r. bracket r = b) (getRatingChanges d cid None) =
        map RatingChange.truncate
          (filter (\<lambda>r. bracket r = b) (sort_key timestamp (sort_key bracket ?rows)))"
    by (simp add: getRatingChanges_def filter_map comp_def truncate_sel)
  also have "\<dots> = map RatingChange.truncate
          (sort_key timestamp (sort_key bracket (filter (\<lambda>r. bracket r = b) ?rows)))"
    by (simp only: filter_sort)
  also have "\<dots> = map RatingChange.truncate
          (sort_key timestamp (filter (\<lambda>r. bracket r = b) ?rows))"
    by (simp only: sort_key_same_bracket)
  finally have lhs: "filter (\<lambda>r. bracket r = b) (getRatingChanges d cid None) =
      map RatingChange.truncate (sort_key timestamp (filter (\<lambda>r. bracket r = b) ?rows))" .
  have "getRatingChanges d cid (Some b) =
      map RatingChange.truncate
        (sort_key timestamp (sort_key bracket (filter (\<lambda>r. bracket r = b) ?rows)))"
    using assms by (simp add: getRatingChanges_def 1 del: filter_filter)
  also have "\<dots> = map RatingChange.truncate (sort_key timestamp (filter (\<lambda>r. bracket r = b) ?rows))"
    by (simp only: sort_key_same_bracket)
  finally show ?thesis using lhs by simp
qed

lemma two_bracket_changes:
  "rating_changes (run ascii_lower two_bracket_ops) =
     [\<lparr>timestamp = 201, bracket = ''blitz'', old_rating = 1500, new_rating = 1516,
       rating_change = 16, games_played = 2, games_won = 1, games_lost = 1,
       rc_id = 1, rc_character_id = 1\<rparr>,
      \<lparr>timestamp = 200, bracket = ''shuffle'', old_rating = 1500, new_rating = 1490,
       rating_change = - 10, games_played = 2, games_won = - 1, games_lost = 0,
       rc_id = 2, rc_character_id = 1\<rparr>]"
  by (simp add: run_def two_bracket_ops_def db_resolved_def [symmetric] db_resolved_eq
      processSnapshot_def getLatestSnapshot_def saveSnapshot_def recordRatingChange_def
      character_exists_def first_fetch_def second_fetch_def inconsistent_fetch_def
      next_rowid_def js_minus_def double_round_def)

lemma level_changes:
  "rating_changes (run ascii_lower level_ops) =
     [\<lparr>timestamp = 200, bracket = ''blitz'', old_rating = 1500, new_rating = 1500,
       rating_change = 0, games_played = 2, games_won = 1, games_lost = 1,
       rc_id = 1, rc_character_id = 1\<rparr>]"
  by (simp add: run_def level_ops_def db_resolved_def [symmetric] db_resolved_eq
      processSnapshot_def getLatestSnapshot_def saveSnapshot_def recordRatingChange_def
      character_exists_def first_fetch_def level_fetch_def
      next_rowid_def js_minus_def double_round_def)

lemma two_bracket_history:
  "getRatingChanges (run ascii_lower two_bracket_ops) 1 None =
     [\<lparr>timestamp = 200, bracket = ''shuffle'', old_rating = 1500, new_rating = 1490,
       rating_change = - 10, games_played = 2, games_won = - 1, games_lost = 0\<rparr>,
      \<lparr>timestamp = 201, bracket = ''blitz'', old_rating = 1500, new_rating = 1516,
       rating_change = 16, games_played = 2, games_won = 1, games_lost = 1\<rparr>]"
  by (simp add: getRatingChanges_def two_bracket_changes RatingChange.truncate_def)

text \<open>
  Claim C8 says that the history of a character is ordered by timestamp, oldest first,
  and that the query with a bracket returns exactly the entries of that bracket, in the
  same order. The filter is applied under \<open>if (bracket)\<close>: with the empty string as
  the bracket the query returns the entries of every bracket, not the (here zero)
  entries whose bracket is the empty string.
\<close>

theorem getRatingChanges_empty_bracket_counterexample:
  "getRatingChanges (run ascii_lower two_bracket_ops) 1 (Some []) \<noteq>
     filter (\<lambda>r. bracket r = []) (getRatingChanges (run ascii_lower two_bracket_ops) 1 None)"
  unfolding getRatingChanges_empty_bracket two_bracket_history by simp

text \<open>
  Claim C8, amended. For every character, \<open>getRatingChanges\<close> returns the entries in
  non-decreasing order of timestamp; without a bracket they are all the recorded entries
  of the character; with a non-empty bracket they are exactly those of them that belong
  to the bracket, in the same order; with the empty string as the bracket no filter is
  applied.
\<close>

theorem getRatingChanges_history:
  "sorted (map timestamp (getRatingChanges d characterId ob)) \<and>
   mset (getRatingChanges d characterId None) =
     mset (map RatingChange.truncate
            (filter (\<lambda>r. rc_character_id r = characterId) (rating_changes d))) \<and>
   (b \<noteq> [] \<longrightarrow>
      getRatingChanges d characterId (Some b) =
        filter (\<lambda>r. bracket r = b) (getRatingChanges d characterId None)) \<and>
   getRatingChanges d characterId (Some []) = getRatingChanges d characterId None"
  using sorted_getRatingChanges mset_getRatingChanges getRatingChanges_filtered
    getRatingChanges_empty_bracket
  by blast

text \<open>The history of the run with one change in each of two brackets.\<close>

theorem getRatingChanges_history_witness:
  "''blitz'' \<noteq> [] \<and>
   map timestamp (getRatingChanges (run ascii_lower two_bracket_ops) 1 None) = [200, 201] \<and>
   map bracket (getRatingChanges (run ascii_lower two_bracket_ops) 1 None) = [''shuffle'', ''blitz''] \<and>
   getRatingChanges (run ascii_lower two_bracket_ops) 1 (Some ''blitz'') =
     [\<lparr>timestamp = 201, bracket = ''blitz'', old_rating = 1500, new_rating = 1516,
       rating_change = 16, games_played = 2, games_won = 1, games_lost = 1\<rparr>]"
  using getRatingChanges_history [of "run ascii_lower two_bracket_ops" 1 None "''blitz''"]
  unfolding two_bracket_history by simp

section \<open>The rows of the ledger\<close>

lemma getOrCreateCharacter_tables:
  "pvp_snapshots (snd (getOrCreateCharacter lc d n r g)) = pvp_snapshots d"
  "rating_changes (snd (getOrCreateCharacter lc d n r g)) = rating_changes d"
  by (simp_all add: getOrCreateCharacter_def Let_def insert_or_ignore_character_def
      split: option.splits)

lemma processSnapshot_invariant:
  assumes "ledger_invariant d" and "in_exact_range (rating cur)"
  shows "ledger_invariant (snd (processSnapshot d now now' cid b cur))"
proof (cases "character_exists d cid")
  case False
  then show ?thesis using assms(1) by (simp add: processSnapshot_foreign_key)
next
  case True
  show ?thesis
  proof (cases "getLatestSnapshot d cid b")
    case None
    show ?thesis
      using assms
      by (simp add: processSnapshot_first [OF True None] ledger_invariant_def
          with_snapshot_tables new_snapshot_def)
  next
    case (Some l)
    have "l \<in> set (pvp_snapshots d)"
      using getLatestSnapshot_row [OF Some] by simp
    then have l: "in_exact_range (s_rating l)"
      using assms(1) by (simp add: ledger_invariant_def)
    show ?thesis
    proof (cases "season_played l < played (season_match_statistics cur)")
      case more: True
      have "js_minus (rating cur) (s_rating l) = rating cur - s_rating l"
        using assms(2) l by (rule js_minus_exact)
      moreover have "0 < js_minus (played (season_match_statistics cur)) (season_played l)"
        using more by (simp add: js_minus_pos)
      ultimately show ?thesis
        using assms
        by (simp add: processSnapshot_more [OF True Some more] ledger_invariant_def
            with_snapshot_tables new_snapshot_def)
    next
      case False
      then have le: "played (season_match_statistics cur) \<le> season_played l" by simp
      show ?thesis
        using assms
        by (simp add: processSnapshot_same [OF True Some le] ledger_invariant_def
            with_snapshot_tables new_snapshot_def)
    qed
  qed
qed

lemma fetched_data_answer:
  "fetchPvPBracket r = Inr (Some data) \<Longrightarrow> \<exists>status. r = Response status (JsonData data)"
  by (auto simp: fetchPvPBracket_def split: fetch_reply.splits json_body.splits if_splits)

lemma pollBrackets_invariant:
  assumes "op_in_exact_range (Poll e)"
  shows "ledger_invariant d \<Longrightarrow> ledger_invariant (snd (snd (pollBrackets e tok cid bs d)))"
proof (induction bs arbitrary: d)
  case Nil
  then show ?case by simp
next
  case (Cons b bs)
  show ?case
  proof (cases "fetchPvPBracket (bracket_answer e tok b)")
    case (Inl err)
    then show ?thesis using Cons.prems by simp
  next
    case (Inr od)
    show ?thesis
    proof (cases od)
      case None
      then show ?thesis using Inr Cons.IH [OF Cons.prems]
        by (auto split: prod.splits)
    next
      case (Some data)
      obtain status where "bracket_answer e tok b = Response status (JsonData data)"
        using fetched_data_answer Inr Some by blast
      then have range: "in_exact_range (rating data)"
        using assms by auto
      obtain res d1 where p: "processSnapshot d (fst (insert_time e b)) (snd (insert_time e b))
          cid b data = (res, d1)"
        by (cases "processSnapshot d (fst (insert_time e b)) (snd (insert_time e b)) cid b data")
      have d1: "ledger_invariant d1"
        using processSnapshot_invariant [OF Cons.prems range,
            of "fst (insert_time e b)" "snd (insert_time e b)" cid b] p
        by simp
      show ?thesis
      proof (cases res)
        case (Inl err)
        then show ?thesis using Inr Some p d1 by simp
      next
        case res: (Inr result)
        from Cons.IH [OF d1] show ?thesis using Inr Some p res
          by (auto split: prod.splits)
      qed
    qed
  qed
qed

lemma pollOnce_invariant:
  assumes "op_in_exact_range (Poll e)" and "ledger_invariant d"
  shows "ledger_invariant (snd (pollOnce lc e d))"
proof (cases "getAccessToken (token_answer e)")
  case (Inl err)
  then show ?thesis using assms(2) by (simp add: pollOnce_def)
next
  case (Inr tok)
  obtain res d0 where g: "getOrCreateCharacter lc d (characterName CONFIG) (realmSlug CONFIG)
      (cfg_region CONFIG) = (res, d0)"
    by (cases "getOrCreateCharacter lc d (characterName CONFIG) (realmSlug CONFIG) (cfg_region CONFIG)")
  have d0: "ledger_invariant d0"
    using getOrCreateCharacter_tables
      [of lc d "characterName CONFIG" "realmSlug CONFIG" "cfg_region CONFIG"] g assms(2)
    by (simp add: ledger_invariant_def)
  show ?thesis
  proof (cases res)
    case (Inl err)
    then show ?thesis using Inr g d0 by (simp add: pollOnce_def)
  next
    case (Inr cid)
    from pollBrackets_invariant [OF assms(1) d0, of tok cid "brackets CONFIG"]
    show ?thesis using \<open>getAccessToken (token_answer e) = Inr tok\<close> g Inr
      by (auto simp: pollOnce_def split: prod.splits option.splits)
  qed
qed

lemma step_invariant:
  assumes "op_in_exact_range x" and "ledger_invariant d"
  shows "ledger_invariant (step lc d x)"
proof (cases x)
  case (Resolve n r g)
  then show ?thesis using assms(2)
    by (simp add: getOrCreateCharacter_tables ledger_invariant_def)
next
  case (Process now now' cid b data)
  then show ?thesis using processSnapshot_invariant [OF assms(2)] assms(1) by simp
next
  case (Poll e)
  then show ?thesis using pollOnce_invariant [OF _ assms(2)] assms(1) by simp
qed

lemma foldl_step_invariant:
  "\<forall>x \<in> set ops. op_in_exact_range x \<Longrightarrow> ledger_invariant d \<Longrightarrow>
   ledger_invariant (foldl (step lc) d ops)"
proof (induction ops arbitrary: d)
  case Nil
  then show ?case by simp
next
  case (Cons x xs)
  have "ledger_invariant (step lc d x)"
    using Cons.prems by (simp add: step_invariant)
  then show ?case using Cons.IH Cons.prems(1) by simp
qed

text \<open>
  Claim C7. In every run of the tracker whose ratings are in the range where the
  subtraction of doubles is exact, every row of \<open>rating_changes\<close> has
  \<open>games_played > 0\<close> and \<open>rating_change = new_rating - old_rating\<close>; and rows
  with a positive, a negative and a zero \<open>rating_change\<close> do get recorded.
\<close>

theorem rating_changes_rows:
  assumes "\<forall>x \<in> set ops. op_in_exact_range x"
  shows "(\<forall>r \<in> set (rating_changes (run toLowerCase ops)).
            0 < games_played r \<and> rating_change r = new_rating r - old_rating r) \<and>
         (\<exists>r \<in> set (rating_changes (run ascii_lower two_bracket_ops)). 0 < rating_change r) \<and>
         (\<exists>r \<in> set (rating_changes (run ascii_lower two_bracket_ops)). rating_change r < 0) \<and>
         (\<exists>r \<in> set (rating_changes (run ascii_lower level_ops)). rating_change r = 0)"
proof -
  have "ledger_invariant init_db"
    by (simp add: ledger_invariant_def init_db_def)
  then have "ledger_invariant (run toLowerCase ops)"
    unfolding run_def using assms by (simp add: foldl_step_invariant)
  then have "\<forall>r \<in> set (rating_changes (run toLowerCase ops)).
      0 < games_played r \<and> rating_change r = new_rating r - old_rating r"
    by (simp add: ledger_invariant_def)
  moreover have "\<exists>r \<in> set (rating_changes (run ascii_lower two_bracket_ops)). 0 < rating_change r"
    unfolding two_bracket_changes by simp
  moreover have "\<exists>r \<in> set (rating_changes (run ascii_lower two_bracket_ops)). rating_change r < 0"
    unfolding two_bracket_changes by simp
  moreover have "\<exists>r \<in> set (rating_changes (run ascii_lower level_ops)). rating_change r = 0"
    unfolding level_changes by simp
  ultimately show ?thesis by blast
qed

text \<open>The two rows of the run with one change in each of two brackets.\<close>

theorem rating_changes_rows_witness:
  "list_all op_in_exact_range two_bracket_ops \<and>
   map games_played (rating_changes (run ascii_lower two_bracket_ops)) = [2, 2] \<and>
   map rating_change (rating_changes (run ascii_lower two_bracket_ops)) = [16, - 10] \<and>
   map new_rating (rating_changes (run ascii_lower two_bracket_ops)) = [1516, 1490] \<and>
   map old_rating (rating_changes (run ascii_lower two_bracket_ops)) = [1500, 1500] \<and>
   list_all (\<lambda>r. 0 < games_played r \<and> rating_change r = new_rating r - old_rating r)
     (rating_changes (run ascii_lower two_bracket_ops))"
proof -
  have range: "\<forall>x \<in> set two_bracket_ops. op_in_exact_range x"
    by (simp add: two_bracket_ops_def in_exact_range_def first_fetch_def second_fetch_def
        inconsistent_fetch_def)
  show ?thesis
    using rating_changes_rows [OF range, of ascii_lower] range
    unfolding two_bracket_changes by (simp add: list_all_iff)
qed

section \<open>Snapshots of the same second\<close>

text \<open>
  Claim C4 says that among snapshots of a pair with the same timestamp the most
  recently inserted one is the latest. The query orders by the timestamp alone: with
  two snapshots of the pair stored in the same second, \<open>getLatestSnapshot\<close> returns
  the one inserted first (rowid 1, 10 games played), not the one inserted last (rowid 2,
  12 games played).
\<close>

theorem getLatestSnapshot_tie:
  "map (\<lambda>r. (s_id r, s_timestamp r, season_played r)) (pvp_snapshots db_tied) =
     [(1, 100, 10), (2, 100, 12)] \<and>
   map_option s_id (getLatestSnapshot db_tied 1 ''shuffle-priest-shadow'') = Some 1"
  unfolding latest_db_tied by (simp add: db_tied_eq)

text \<open>
  Claim C6 says that processing the same fetched data twice in a row records no rating
  change the second time. With a snapshot of 10 games stored in second 100, the fetch
  with 12 games is processed twice within that same second: the second call still finds
  the snapshot of 10 games as the latest one and records the same change of 2 games and
  16 points again.
\<close>

theorem processSnapshot_twice_same_second:
  "db_tied = snd (processSnapshot db_one_snapshot 100 100 1 ''shuffle-priest-shadow'' second_fetch) \<and>
   fst (processSnapshot db_tied 100 100 1 ''shuffle-priest-shadow'' second_fetch) =
     Inr \<lparr>changed = True, ratingChange = Some 16\<rparr> \<and>
   map (\<lambda>r. (rc_id r, old_rating r, new_rating r, games_played r))
     (rating_changes (snd (processSnapshot db_tied 100 100 1 ''shuffle-priest-shadow'' second_fetch))) =
     [(1, 1500, 1516, 2), (2, 1500, 1516, 2)]"
proof -
  have more: "season_played \<lparr>s_id = 1, s_character_id = 1, s_bracket = ''shuffle-priest-shadow'',
          s_timestamp = 100, s_rating = 1500, season_played = 10, season_won = 6,
          season_lost = 4, weekly_played = 4, weekly_won = 3, weekly_lost = 1\<rparr>
        < played (season_match_statistics second_fetch)"
    by (simp add: second_fetch_def)
  have result: "fst (processSnapshot db_tied 100 100 1 ''shuffle-priest-shadow'' second_fetch) =
      Inr \<lparr>changed = True, ratingChange = Some 16\<rparr>"
    and rows: "map (\<lambda>r. (rc_id r, old_rating r, new_rating r, games_played r))
      (rating_changes (snd (processSnapshot db_tied 100 100 1 ''shuffle-priest-shadow'' second_fetch))) =
      [(1, 1500, 1516, 2), (2, 1500, 1516, 2)]"
    unfolding processSnapshot_more [OF exists_db_tied latest_db_tied more]
    by (simp_all add: db_tied_eq second_fetch_def next_rowid_def js_minus_def double_round_def)
  show ?thesis
    by (intro conjI db_tied_def result rows)
qed

text \<open>
  When the first of the two calls stores its snapshot at a timestamp later than every
  stored snapshot of the pair, the second call records nothing.
\<close>

lemma processSnapshot_twice_later:
  assumes "character_exists d cid"
    and "\<forall>y \<in> set (pvp_snapshots d).
             s_character_id y = cid \<and> s_bracket y = b \<longrightarrow> s_timestamp y < now"
  shows "fst (processSnapshot (snd (processSnapshot d now now' cid b cur)) t t' cid b cur) =
           Inr \<lparr>changed = False, ratingChange = None\<rparr>"
proof -
  let ?d1 = "snd (processSnapshot d now now' cid b cur)"
  have snaps: "pvp_snapshots ?d1 = pvp_snapshots (with_snapshot d now cid b cur)"
    and ex: "character_exists ?d1 cid"
  proof -
    consider "getLatestSnapshot d cid b = None"
      | l where "getLatestSnapshot d cid b = Some l"
          "played (season_match_statistics cur) \<le> season_played l"
      | l where "getLatestSnapshot d cid b = Some l"
          "season_played l < played (season_match_statistics cur)"
      by (cases "getLatestSnapshot d cid b") force+
    then have "pvp_snapshots ?d1 = pvp_snapshots (with_snapshot d now cid b cur) \<and>
        character_exists ?d1 cid"
    proof cases
      case 1
      show ?thesis
        using assms(1) by (simp add: processSnapshot_first [OF assms(1) 1] with_snapshot_tables)
    next
      case 2
      show ?thesis
        using assms(1) by (simp add: processSnapshot_same [OF assms(1) 2] with_snapshot_tables)
    next
      case 3
      show ?thesis
        using assms(1)
        by (simp add: processSnapshot_more [OF assms(1) 3] with_snapshot_tables
            character_exists_def)
    qed
    then show "pvp_snapshots ?d1 = pvp_snapshots (with_snapshot d now cid b cur)"
      and "character_exists ?d1 cid" by simp_all
  qed
  have "getLatestSnapshot ?d1 cid b = getLatestSnapshot (with_snapshot d now cid b cur) cid b"
    by (simp add: getLatestSnapshot_def snaps)
  also have "\<dots> = Some (last (pvp_snapshots (with_snapshot d now cid b cur)))"
    using assms(2) saveSnapshot_exists [OF assms(1)] by (rule getLatestSnapshot_after_save)
  finally have latest: "getLatestSnapshot ?d1 cid b = Some (new_snapshot d now cid b cur)"
    by (simp add: with_snapshot_tables)
  have "played (season_match_statistics cur) \<le> season_played (new_snapshot d now cid b cur)"
    by (simp add: new_snapshot_def)
  from processSnapshot_same [OF ex latest this] show ?thesis by simp
qed

section \<open>Resolving a character\<close>

lemma find_append_Some: "find P xs = Some c \<Longrightarrow> find P (xs @ ys) = Some c"
  by (induction xs) (auto split: if_splits)

lemma find_append_None: "find P xs = None \<Longrightarrow> find P (xs @ ys) = find P ys"
  by (induction xs) (auto split: if_splits)

lemma getOrCreateCharacter_existing:
  assumes "find (same_character (lc n) (lc r) (lc g)) (characters d) = Some c"
  shows "getOrCreateCharacter lc d n r g = (Inr (c_id c), d)"
  using assms by (simp add: getOrCreateCharacter_def insert_or_ignore_character_def)

lemma getOrCreateCharacter_new:
  assumes "find (same_character (lc n) (lc r) (lc g)) (characters d) = None"
  shows "getOrCreateCharacter lc d n r g =
     (Inr (next_rowid (map c_id (characters d))),
      d\<lparr>characters := characters d @
         [\<lparr>c_id = next_rowid (map c_id (characters d)),
           name = lc n, realm_slug = lc r, region = lc g\<rparr>]\<rparr>)"
  using assms
  by (simp add: getOrCreateCharacter_def insert_or_ignore_character_def find_append_None
      same_character_def)

lemma getOrCreateCharacter_found:
  "\<exists>c. fst (getOrCreateCharacter lc d n r g) = Inr (c_id c) \<and>
       find (same_character (lc n) (lc r) (lc g))
         (characters (snd (getOrCreateCharacter lc d n r g))) = Some c"
proof (cases "find (same_character (lc n) (lc r) (lc g)) (characters d)")
  case None
  then show ?thesis
    by (simp add: getOrCreateCharacter_new find_append_None same_character_def)
next
  case (Some c)
  then show ?thesis
    by (simp add: getOrCreateCharacter_existing)
qed

lemma getOrCreateCharacter_exists:
  "\<exists>i. fst (getOrCreateCharacter lc d n r g) = Inr i \<and>
       character_exists (snd (getOrCreateCharacter lc d n r g)) i"
proof -
  obtain c where c: "fst (getOrCreateCharacter lc d n r g) = Inr (c_id c)"
    "find (same_character (lc n) (lc r) (lc g))
       (characters (snd (getOrCreateCharacter lc d n r g))) = Some c"
    using getOrCreateCharacter_found by blast
  have "c \<in> set (characters (snd (getOrCreateCharacter lc d n r g)))"
    using c(2) by (auto simp: find_Some_iff in_set_conv_nth)
  then have "character_exists (snd (getOrCreateCharacter lc d n r g)) (c_id c)"
    by (simp add: character_exists_def)
  then show ?thesis using c(1) by blast
qed

lemma getOrCreateCharacter_grows:
  "\<exists>ys. characters (snd (getOrCreateCharacter lc d n r g)) = characters d @ ys"
  by (cases "find (same_character (lc n) (lc r) (lc g)) (characters d)")
     (simp_all add: getOrCreateCharacter_new getOrCreateCharacter_existing)

lemma processSnapshot_characters:
  "characters (snd (processSnapshot d now now' cid b cur)) = characters d"
proof (cases "character_exists d cid")
  case False
  then show ?thesis by (simp add: processSnapshot_foreign_key)
next
  case True
  consider "getLatestSnapshot d cid b = None"
    | l where "getLatestSnapshot d cid b = Some l"
        "played (season_match_statistics cur) \<le> season_played l"
    | l where "getLatestSnapshot d cid b = Some l"
        "season_played l < played (season_match_statistics cur)"
    by (cases "getLatestSnapshot d cid b") force+
  then show ?thesis
  proof cases
    case 1
    show ?thesis by (simp add: processSnapshot_first [OF True 1] with_snapshot_tables)
  next
    case 2
    show ?thesis by (simp add: processSnapshot_same [OF True 2] with_snapshot_tables)
  next
    case 3
    show ?thesis by (simp add: processSnapshot_more [OF True 3] with_snapshot_tables)
  qed
qed

lemma processSnapshot_succeeds:
  assumes "character_exists d cid"
  shows "\<exists>res. fst (processSnapshot d now now' cid b cur) = Inr res \<and>
           character_exists (snd (processSnapshot d now now' cid b cur)) cid \<and>
           pvp_snapshots (snd (processSnapshot d now now' cid b cur)) =
             pvp_snapshots d @ [new_snapshot d now cid b cur]"
proof -
  consider "getLatestSnapshot d cid b = None"
    | l where "getLatestSnapshot d cid b = Some l"
        "played (season_match_statistics cur) \<le> season_played l"
    | l where "getLatestSnapshot d cid b = Some l"
        "season_played l < played (season_match_statistics cur)"
    by (cases "getLatestSnapshot d cid b") force+
  then show ?thesis
  proof cases
    case 1
    show ?thesis using assms
      by (simp add: processSnapshot_first [OF assms 1] with_snapshot_tables)
  next
    case 2
    show ?thesis using assms
      by (simp add: processSnapshot_same [OF assms 2] with_snapshot_tables)
  next
    case 3
    show ?thesis using assms
      by (simp add: processSnapshot_more [OF assms 3] with_snapshot_tables character_exists_def)
  qed
qed

lemma pollBrackets_characters:
  "characters (snd (snd (pollBrackets e tok cid bs d))) = characters d"
proof (induction bs arbitrary: d)
  case Nil
  show ?case by simp
next
  case (Cons b bs)
  show ?case
  proof (cases "fetchPvPBracket (bracket_answer e tok b)")
    case (Inl err)
    then show ?thesis by simp
  next
    case (Inr od)
    show ?thesis
    proof (cases od)
      case None
      then show ?thesis using Inr Cons.IH [of d]
        by (auto split: prod.splits)
    next
      case (Some data)
      obtain res d1 where p: "processSnapshot d (fst (insert_time e b)) (snd (insert_time e b))
          cid b data = (res, d1)"
        by (cases "processSnapshot d (fst (insert_time e b)) (snd (insert_time e b)) cid b data")
      have d1: "characters d1 = characters d"
        using processSnapshot_characters
          [of d "fst (insert_time e b)" "snd (insert_time e b)" cid b data] p
        by simp
      show ?thesis
      proof (cases res)
        case (Inl err)
        then show ?thesis using Inr Some p d1 by simp
      next
        case res: (Inr result)
        from Cons.IH [of d1] show ?thesis using Inr Some p res d1
          by (auto split: prod.splits)
      qed
    qed
  qed
qed

lemma pollOnce_characters:
  "\<exists>ys. characters (snd (pollOnce lc e d)) = characters d @ ys"
proof (cases "getAccessToken (token_answer e)")
  case (Inl err)
  then show ?thesis by (simp add: pollOnce_def)
next
  case (Inr tok)
  obtain res d0 where g: "getOrCreateCharacter lc d (characterName CONFIG) (realmSlug CONFIG)
      (cfg_region CONFIG) = (res, d0)"
    by (cases "getOrCreateCharacter lc d (characterName CONFIG) (realmSlug CONFIG) (cfg_region CONFIG)")
  obtain ys where d0: "characters d0 = characters d @ ys"
    using getOrCreateCharacter_grows
      [of lc d "characterName CONFIG" "realmSlug CONFIG" "cfg_region CONFIG"] g
    by auto
  show ?thesis
  proof (cases res)
    case (Inl err)
    then show ?thesis using Inr g d0 by (simp add: pollOnce_def)
  next
    case (Inr cid)
    from pollBrackets_characters [of e tok cid "brackets CONFIG" d0]
    show ?thesis using \<open>getAccessToken (token_answer e) = Inr tok\<close> g Inr d0
      by (auto simp: pollOnce_def split: prod.splits option.splits)
  qed
qed

lemma step_characters: "\<exists>ys. characters (step lc d x) = characters d @ ys"
proof (cases x)
  case (Resolve n r g)
  then show ?thesis using getOrCreateCharacter_grows [of lc d n r g] by simp
next
  case (Process now now' cid b data)
  then show ?thesis by (simp add: processSnapshot_characters)
next
  case (Poll e)
  then show ?thesis using pollOnce_characters [of lc e d] by simp
qed

lemma foldl_step_find:
  "find P (characters d) = Some c \<Longrightarrow> find P (characters (foldl (step lc) d ops)) = Some c"
proof (induction ops arbitrary: d)
  case Nil
  then show ?case by simp
next
  case (Cons x xs)
  obtain ys where "characters (step lc d x) = characters d @ ys"
    using step_characters by blast
  then have "find P (characters (step lc d x)) = Some c"
    using Cons.prems by (simp add: find_append_Some)
  from Cons.IH [OF this] show ?case by simp
qed

lemma getOrCreateCharacter_distinct:
  assumes "distinct (map triple (characters d))"
  shows "distinct (map triple (characters (snd (getOrCreateCharacter lc d n r g))))"
proof (cases "find (same_character (lc n) (lc r) (lc g)) (characters d)")
  case None
  then have "(lc n, lc r, lc g) \<notin> triple ` set (characters d)"
    by (auto simp: find_None_iff same_character_def triple_def)
  then show ?thesis using assms None
    by (simp add: getOrCreateCharacter_new triple_def)
next
  case (Some c)
  then show ?thesis using assms by (simp add: getOrCreateCharacter_existing)
qed

lemma pollOnce_distinct:
  assumes "distinct (map triple (characters d))"
  shows "distinct (map triple (characters (snd (pollOnce lc e d))))"
proof (cases "getAccessToken (token_answer e)")
  case (Inl err)
  then show ?thesis using assms by (simp add: pollOnce_def)
next
  case (Inr tok)
  obtain res d0 where g: "getOrCreateCharacter lc d (characterName CONFIG) (realmSlug CONFIG)
      (cfg_region CONFIG) = (res, d0)"
    by (cases "getOrCreateCharacter lc d (characterName CONFIG) (realmSlug CONFIG) (cfg_region CONFIG)")
  have d0: "distinct (map triple (characters d0))"
    using getOrCreateCharacter_distinct
      [OF assms, of lc "characterName CONFIG" "realmSlug CONFIG" "cfg_region CONFIG"] g
    by simp
  show ?thesis
  proof (cases res)
    case (Inl err)
    then show ?thesis using Inr g d0 by (simp add: pollOnce_def)
  next
    case (Inr cid)
    from pollBrackets_characters [of e tok cid "brackets CONFIG" d0]
    show ?thesis using \<open>getAccessToken (token_answer e) = Inr tok\<close> g Inr d0
      by (auto simp: pollOnce_def split: prod.splits option.splits)
  qed
qed

lemma step_distinct:
  assumes "distinct (map triple (characters d))"
  shows "distinct (map triple (characters (step lc d x)))"
proof (cases x)
  case (Resolve n r g)
  then show ?thesis using getOrCreateCharacter_distinct [OF assms] by simp
next
  case (Process now now' cid b data)
  then show ?thesis using assms by (simp add: processSnapshot_characters)
next
  case (Poll e)
  then show ?thesis using pollOnce_distinct [OF assms] by simp
qed

lemma foldl_step_distinct:
  "distinct (map triple (characters d)) \<Longrightarrow>
   distinct (map triple (characters (foldl (step lc) d ops)))"
proof (induction ops arbitrary: d)
  case Nil
  then show ?case by simp
next
  case (Cons x xs)
  from Cons.IH [OF step_distinct [OF Cons.prems]] show ?case by simp
qed

text \<open>
  Claim C9. Case variants are names, realms and regions that \<open>toLowerCase\<close> maps to
  the same strings. For them \<open>getOrCreateCharacter\<close> returns the identifier that the
  first call returned, in every later call, whatever the tracker did in between, and
  such a later call leaves the database as it is; the first call appends the row, with
  the lowered fields, when no row had them; and no run of the tracker holds two rows
  with the same three fields.
\<close>

theorem getOrCreateCharacter_resolve:
  assumes "toLowerCase n' = toLowerCase n"
    and "toLowerCase r' = toLowerCase r"
    and "toLowerCase g' = toLowerCase g"
  shows "\<exists>i. fst (getOrCreateCharacter toLowerCase d n r g) = Inr i \<and>
           (\<forall>ops. getOrCreateCharacter toLowerCase
                     (foldl (step toLowerCase) (snd (getOrCreateCharacter toLowerCase d n r g)) ops)
                     n' r' g' =
                   (Inr i,
                    foldl (step toLowerCase) (snd (getOrCreateCharacter toLowerCase d n r g)) ops)) \<and>
           (find (same_character (toLowerCase n) (toLowerCase r) (toLowerCase g)) (characters d) =
              None \<longrightarrow>
              characters (snd (getOrCreateCharacter toLowerCase d n r g)) =
                characters d @
                  [\<lparr>c_id = i, name = toLowerCase n, realm_slug = toLowerCase r,
                    region = toLowerCase g\<rparr>]) \<and>
           distinct (map triple (characters (run toLowerCase ops0)))"
proof -
  let ?d1 = "snd (getOrCreateCharacter toLowerCase d n r g)"
  let ?P = "same_character (toLowerCase n) (toLowerCase r) (toLowerCase g)"
  obtain c where c: "fst (getOrCreateCharacter toLowerCase d n r g) = Inr (c_id c)"
    "find ?P (characters ?d1) = Some c"
    using getOrCreateCharacter_found [of toLowerCase d n r g] by blast
  have later: "getOrCreateCharacter toLowerCase (foldl (step toLowerCase) ?d1 ops) n' r' g' =
      (Inr (c_id c), foldl (step toLowerCase) ?d1 ops)" for ops
  proof -
    have "find ?P (characters (foldl (step toLowerCase) ?d1 ops)) = Some c"
      using c(2) by (rule foldl_step_find)
    then show ?thesis
      using getOrCreateCharacter_existing
        [of toLowerCase n' r' g' "foldl (step toLowerCase) ?d1 ops" c]
      by (simp add: assms)
  qed
  have created: "characters ?d1 =
      characters d @ [\<lparr>c_id = c_id c, name = toLowerCase n, realm_slug = toLowerCase r,
                       region = toLowerCase g\<rparr>]"
    if "find ?P (characters d) = None"
    using that c(1) by (simp add: getOrCreateCharacter_new)
  have "distinct (map triple (characters init_db))"
    by (simp add: init_db_def)
  then have "distinct (map triple (characters (run toLowerCase ops0)))"
    unfolding run_def by (rule foldl_step_distinct)
  then show ?thesis
    using c(1) later created
    by (intro exI [of _ "c_id c"] conjI allI impI)
qed

lemma ascii_lower_examples:
  "ascii_lower ''Foo'' = ''foo''" "ascii_lower ''foo'' = ''foo''"
  "ascii_lower ''Bar'' = ''bar''" "ascii_lower ''bar'' = ''bar''"
  "ascii_lower ''US'' = ''us''"
  by code_simp+

text \<open>\<open>Foo\<close>, \<open>Bar\<close>, \<open>us\<close> and then \<open>foo\<close>, \<open>bar\<close>, \<open>US\<close> on the empty database.\<close>

theorem getOrCreateCharacter_resolve_witness:
  "ascii_lower ''foo'' = ascii_lower ''Foo'' \<and>
   ascii_lower ''bar'' = ascii_lower ''Bar'' \<and>
   ascii_lower ''US'' = ascii_lower ''us'' \<and>
   getOrCreateCharacter ascii_lower init_db ''Foo'' ''Bar'' ''us'' =
     (Inr 1, \<lparr>characters = [\<lparr>c_id = 1, name = ''foo'', realm_slug = ''bar'', region = ''us''\<rparr>],
              pvp_snapshots = [], rating_changes = []\<rparr>) \<and>
   getOrCreateCharacter ascii_lower
     (snd (getOrCreateCharacter ascii_lower init_db ''Foo'' ''Bar'' ''us'')) ''foo'' ''bar'' ''US'' =
     (Inr 1, \<lparr>characters = [\<lparr>c_id = 1, name = ''foo'', realm_slug = ''bar'', region = ''us''\<rparr>],
              pvp_snapshots = [], rating_changes = []\<rparr>)"
proof -
  have v: "ascii_lower ''foo'' = ascii_lower ''Foo''" "ascii_lower ''bar'' = ascii_lower ''Bar''"
    "ascii_lower ''US'' = ascii_lower ''us''"
    by (simp_all add: ascii_lower_examples ascii_lower_names)
  have first: "getOrCreateCharacter ascii_lower init_db ''Foo'' ''Bar'' ''us'' =
     (Inr 1, \<lparr>characters = [\<lparr>c_id = 1, name = ''foo'', realm_slug = ''bar'', region = ''us''\<rparr>],
              pvp_snapshots = [], rating_changes = []\<rparr>)"
    by (simp add: getOrCreateCharacter_def insert_or_ignore_character_def init_db_def
        same_character_def next_rowid_def ascii_lower_examples ascii_lower_names)
  obtain i where i: "fst (getOrCreateCharacter ascii_lower init_db ''Foo'' ''Bar'' ''us'') = Inr i"
    "\<forall>ops. getOrCreateCharacter ascii_lower
        (foldl (step ascii_lower) (snd (getOrCreateCharacter ascii_lower init_db ''Foo'' ''Bar'' ''us'')) ops)
        ''foo'' ''bar'' ''US'' =
      (Inr i, foldl (step ascii_lower) (snd (getOrCreateCharacter ascii_lower init_db ''Foo'' ''Bar'' ''us'')) ops)"
    using getOrCreateCharacter_resolve
      [where toLowerCase = ascii_lower and n = "''Foo''" and n' = "''foo''"
         and r = "''Bar''" and r' = "''bar''" and g = "''us''" and g' = "''US''"
         and d = init_db, OF v]
    by blast
  have "i = 1" using i(1) first by simp
  moreover have "getOrCreateCharacter ascii_lower
        (snd (getOrCreateCharacter ascii_lower init_db ''Foo'' ''Bar'' ''us'')) ''foo'' ''bar'' ''US'' =
      (Inr i, snd (getOrCreateCharacter ascii_lower init_db ''Foo'' ''Bar'' ''us''))"
    using i(2) [rule_format, of "[]"] by simp
  ultimately show ?thesis using v first by simp
qed

section \<open>A failing bracket request\<close>

lemma requests_append: "requests (tr @ tr') = requests tr @ requests tr'"
  by (induction tr rule: requests.induct) simp_all

lemma process_fetched_no_data:
  "fetchPvPBracket (bracket_answer e tok b) = Inr None \<Longrightarrow> process_fetched e tok cid d b = d"
  "fetchPvPBracket (bracket_answer e tok b) = Inr None \<Longrightarrow> \<not> has_data e tok b"
  by (simp_all add: process_fetched_def has_data_def)

lemma process_fetched_data:
  "fetchPvPBracket (bracket_answer e tok b) = Inr (Some data) \<Longrightarrow>
     process_fetched e tok cid d b =
       snd (processSnapshot d (fst (insert_time e b)) (snd (insert_time e b)) cid b data)"
  "fetchPvPBracket (bracket_answer e tok b) = Inr (Some data) \<Longrightarrow> has_data e tok b"
  by (simp_all add: process_fetched_def has_data_def)

lemma pollBrackets_stops:
  assumes "fetchPvPBracket (bracket_answer e tok b) = Inl err"
  shows "character_exists d cid \<Longrightarrow>
     \<forall>b' \<in> set pre. \<forall>err'. fetchPvPBracket (bracket_answer e tok b') \<noteq> Inl err' \<Longrightarrow>
     \<exists>tr. pollBrackets e tok cid (pre @ b # post) d =
            (tr @ [Request b], Some err, foldl (process_fetched e tok cid) d pre) \<and>
          requests tr = pre"
proof (induction pre arbitrary: d)
  case Nil
  have "pollBrackets e tok cid ([] @ b # post) d = ([] @ [Request b], Some err, d)"
    using assms by simp
  then show ?case by (intro exI [of _ "[]"]) simp
next
  case (Cons a pre)
  have rest: "\<forall>b' \<in> set pre. \<forall>err'. fetchPvPBracket (bracket_answer e tok b') \<noteq> Inl err'"
    using Cons.prems(2) by simp
  obtain od where od: "fetchPvPBracket (bracket_answer e tok a) = Inr od"
    using Cons.prems(2) by (cases "fetchPvPBracket (bracket_answer e tok a)") auto
  show ?case
  proof (cases od)
    case None
    obtain tr where tr: "pollBrackets e tok cid (pre @ b # post) d =
        (tr @ [Request b], Some err, foldl (process_fetched e tok cid) d pre)"
      "requests tr = pre"
      using Cons.IH [OF Cons.prems(1) rest] by blast
    have "pollBrackets e tok cid ((a # pre) @ b # post) d =
        ((Request a # LogNoData a # tr) @ [Request b], Some err,
         foldl (process_fetched e tok cid) d (a # pre))"
      using od None tr(1) by (simp add: process_fetched_no_data)
    moreover have "requests (Request a # LogNoData a # tr) = a # pre"
      using tr(2) by simp
    ultimately show ?thesis by blast
  next
    case (Some data)
    let ?p = "processSnapshot d (fst (insert_time e a)) (snd (insert_time e a)) cid a data"
    obtain res d1 where p: "?p = (Inr res, d1)" and ex: "character_exists d1 cid"
      using processSnapshot_succeeds [OF Cons.prems(1), of "fst (insert_time e a)"
          "snd (insert_time e a)" a data]
      by (cases ?p) auto
    obtain tr where tr: "pollBrackets e tok cid (pre @ b # post) d1 =
        (tr @ [Request b], Some err, foldl (process_fetched e tok cid) d1 pre)"
      "requests tr = pre"
      using Cons.IH [OF ex rest] by blast
    let ?tr = "Request a # LogRating a (rating data) (played (season_match_statistics data))
        # (if changed res then [LogChange (ratingChange res)] else []) @ tr"
    have "pollBrackets e tok cid ((a # pre) @ b # post) d =
        (?tr @ [Request b], Some err, foldl (process_fetched e tok cid) d (a # pre))"
      using od Some tr(1) p by (simp add: process_fetched_data)
    moreover have "requests ?tr = a # pre"
      using tr(2) by (simp add: requests_append)
    ultimately show ?thesis by blast
  qed
qed

lemma process_fetched_snapshots:
  "character_exists d cid \<Longrightarrow>
   \<exists>ys. pvp_snapshots (foldl (process_fetched e tok cid) d pre) = pvp_snapshots d @ ys \<and>
        map s_bracket ys = filter (has_data e tok) pre"
proof (induction pre arbitrary: d)
  case Nil
  show ?case by simp
next
  case (Cons a pre)
  show ?case
  proof (cases "fetchPvPBracket (bracket_answer e tok a)")
    case (Inl err)
    then have "process_fetched e tok cid d a = d" "\<not> has_data e tok a"
      by (simp_all add: process_fetched_def has_data_def)
    then show ?thesis using Cons.IH [OF Cons.prems] by simp
  next
    case (Inr od)
    show ?thesis
    proof (cases od)
      case None
      then show ?thesis using Cons.IH [OF Cons.prems] Inr
        by (simp add: process_fetched_no_data)
    next
      case (Some data)
      let ?p = "processSnapshot d (fst (insert_time e a)) (snd (insert_time e a)) cid a data"
      have ex: "character_exists (snd ?p) cid"
        and snaps: "pvp_snapshots (snd ?p) =
          pvp_snapshots d @ [new_snapshot d (fst (insert_time e a)) cid a data]"
        using processSnapshot_succeeds [OF Cons.prems, of "fst (insert_time e a)"
            "snd (insert_time e a)" a data]
        by blast+
      obtain ys where ys: "pvp_snapshots (foldl (process_fetched e tok cid) (snd ?p) pre) =
          pvp_snapshots (snd ?p) @ ys" "map s_bracket ys = filter (has_data e tok) pre"
        using Cons.IH [OF ex] by blast
      have "pvp_snapshots (foldl (process_fetched e tok cid) d (a # pre)) =
          pvp_snapshots d @ (new_snapshot d (fst (insert_time e a)) cid a data # ys)"
        using Inr Some ys(1) snaps by (simp add: process_fetched_data)
      moreover have "map s_bracket (new_snapshot d (fst (insert_time e a)) cid a data # ys) =
          filter (has_data e tok) (a # pre)"
        using Inr Some ys(2) by (simp add: process_fetched_data new_snapshot_def)
      ultimately show ?thesis by blast
    qed
  qed
qed

text \<open>
  Claim C3, amended. When the request for one bracket fails during a poll, the error is
  caught and written, and the poll ends there. The brackets before the failing one have
  been requested and processed: the database is the one that results from processing
  them in order, and the snapshots stored during the poll are those of the brackets
  before the failing one whose request was answered with data. The failing bracket has
  been requested; no bracket after it is requested or processed.
\<close>

theorem pollOnce_failure_ends_cycle:
  assumes "getAccessToken (token_answer e) = Inr token"
    and "brackets CONFIG = pre @ b # post"
    and "\<forall>b' \<in> set pre. \<forall>err'. fetchPvPBracket (bracket_answer e token b') \<noteq> Inl err'"
    and "fetchPvPBracket (bracket_answer e token b) = Inl err"
  shows "\<exists>characterId tr.
           fst (getOrCreateCharacter toLowerCase d
                  (characterName CONFIG) (realmSlug CONFIG) (cfg_region CONFIG)) =
             Inr characterId \<and>
           pollOnce toLowerCase e d =
             (tr @ [Request b, LogError err],
              foldl (process_fetched e token characterId)
                (snd (getOrCreateCharacter toLowerCase d
                        (characterName CONFIG) (realmSlug CONFIG) (cfg_region CONFIG)))
                pre) \<and>
           requests tr = pre \<and>
           map s_bracket
             (drop (length (pvp_snapshots d)) (pvp_snapshots (snd (pollOnce toLowerCase e d)))) =
             filter (has_data e token) pre"
proof -
  let ?g = "getOrCreateCharacter toLowerCase d
      (characterName CONFIG) (realmSlug CONFIG) (cfg_region CONFIG)"
  obtain cid d0 where g: "?g = (Inr cid, d0)" and ex: "character_exists d0 cid"
    using getOrCreateCharacter_exists
      [of toLowerCase d "characterName CONFIG" "realmSlug CONFIG" "cfg_region CONFIG"]
    by (cases ?g) auto
  obtain tr where tr: "pollBrackets e token cid (pre @ b # post) d0 =
      (tr @ [Request b], Some err, foldl (process_fetched e token cid) d0 pre)"
    "requests tr = pre"
    using pollBrackets_stops [OF assms(4) ex assms(3)] by blast
  have poll: "pollOnce toLowerCase e d =
      (tr @ [Request b, LogError err], foldl (process_fetched e token cid) d0 pre)"
    by (simp add: pollOnce_def assms(1) assms(2) g tr(1))
  obtain ys where ys: "pvp_snapshots (foldl (process_fetched e token cid) d0 pre) =
      pvp_snapshots d0 @ ys" "map s_bracket ys = filter (has_data e token) pre"
    using process_fetched_snapshots [OF ex] by blast
  have "pvp_snapshots d0 = pvp_snapshots d"
    using getOrCreateCharacter_tables(1)
      [of toLowerCase d "characterName CONFIG" "realmSlug CONFIG" "cfg_region CONFIG"] g
    by simp
  then have "map s_bracket
      (drop (length (pvp_snapshots d)) (pvp_snapshots (snd (pollOnce toLowerCase e d)))) =
      filter (has_data e token) pre"
    using ys by (simp add: poll)
  moreover have "fst ?g = Inr cid" and "snd ?g = d0"
    using g by simp_all
  ultimately show ?thesis
    using poll tr(2) by (intro exI [of _ cid] exI [of _ tr]) simp
qed

lemma resolve_init_db:
  "getOrCreateCharacter ascii_lower init_db
     (characterName CONFIG) (realmSlug CONFIG) (cfg_region CONFIG) = (Inr 1, db_resolved)"
  by (simp add: CONFIG_def db_resolved_eq getOrCreateCharacter_def insert_or_ignore_character_def
      init_db_def same_character_def next_rowid_def ascii_lower_names)

lemma failing_poll:
  "pollOnce ascii_lower failing_env init_db =
     ([Request ''shuffle-priest-shadow'', LogError (HttpError 500)], db_resolved)"
  unfolding pollOnce_def resolve_init_db
  by (simp add: failing_env_def getAccessToken_def response_ok_def CONFIG_def fetchPvPBracket_def)

lemma late_failing_poll:
  "pollOnce ascii_lower late_failing_env init_db =
     ([Request ''shuffle-priest-shadow'', LogRating ''shuffle-priest-shadow'' 1500 10,
       Request ''blitz-priest-shadow'', LogError (HttpError 500)],
      db_one_snapshot)"
proof -
  have ex: "character_exists db_resolved 1"
    by (simp add: db_resolved_eq character_exists_def)
  have none: "getLatestSnapshot db_resolved 1 ''shuffle-priest-shadow'' = None"
    by (simp add: getLatestSnapshot_def db_resolved_eq)
  have p: "processSnapshot db_resolved 100 100 1 ''shuffle-priest-shadow'' first_fetch =
      (Inr \<lparr>changed = False, ratingChange = None\<rparr>, db_one_snapshot)"
    unfolding processSnapshot_first [OF ex none]
    by (simp add: with_snapshot_def new_snapshot_def db_one_snapshot_eq db_resolved_eq
        first_fetch_def next_rowid_def)
  have rating: "rating first_fetch = 1500" "played (season_match_statistics first_fetch) = 10"
    by (simp_all add: first_fetch_def)
  show ?thesis
    unfolding pollOnce_def resolve_init_db
    by (simp add: late_failing_env_def getAccessToken_def response_ok_def CONFIG_def
        fetchPvPBracket_def p [unfolded One_nat_def [symmetric]] rating del: One_nat_def)
qed

text \<open>
  Claim C3 says that every bracket after a failing one is still fetched and processed.
  With status 500 for the first configured bracket, the second one, whose request
  would have been answered with data, is never requested and no snapshot is stored.
\<close>

theorem pollOnce_failure_counterexample:
  "fetchPvPBracket (bracket_answer failing_env ''token'' ''shuffle-priest-shadow'') = Inl (HttpError 500) \<and>
   fetchPvPBracket (bracket_answer failing_env ''token'' ''blitz-priest-shadow'') = Inr (Some first_fetch) \<and>
   brackets CONFIG = [''shuffle-priest-shadow'', ''blitz-priest-shadow''] \<and>
   fst (pollOnce ascii_lower failing_env init_db) =
     [Request ''shuffle-priest-shadow'', LogError (HttpError 500)] \<and>
   ''blitz-priest-shadow'' \<notin> set (requests (fst (pollOnce ascii_lower failing_env init_db))) \<and>
   pvp_snapshots (snd (pollOnce ascii_lower failing_env init_db)) = []"
  unfolding failing_poll
  by (simp add: failing_env_def fetchPvPBracket_def response_ok_def CONFIG_def db_resolved_eq)

text \<open>
  The network that fails at the second bracket: the first one has been processed and its
  snapshot is stored. And the network that fails at the first bracket: nothing precedes
  it and nothing is stored.
\<close>

theorem pollOnce_failure_ends_cycle_witness:
  "getAccessToken (token_answer late_failing_env) = Inr ''token'' \<and>
   brackets CONFIG = [''shuffle-priest-shadow''] @ ''blitz-priest-shadow'' # [] \<and>
   fetchPvPBracket (bracket_answer late_failing_env ''token'' ''shuffle-priest-shadow'') =
     Inr (Some first_fetch) \<and>
   fetchPvPBracket (bracket_answer late_failing_env ''token'' ''blitz-priest-shadow'') =
     Inl (HttpError 500) \<and>
   pollOnce ascii_lower late_failing_env init_db =
     ([Request ''shuffle-priest-shadow'', LogRating ''shuffle-priest-shadow'' 1500 10,
       Request ''blitz-priest-shadow'', LogError (HttpError 500)],
      db_one_snapshot) \<and>
   filter (has_data late_failing_env ''token'') [''shuffle-priest-shadow''] =
     [''shuffle-priest-shadow''] \<and>
   map s_bracket (pvp_snapshots (snd (pollOnce ascii_lower late_failing_env init_db))) =
     [''shuffle-priest-shadow''] \<and>
   getAccessToken (token_answer failing_env) = Inr ''token'' \<and>
   brackets CONFIG = [] @ ''shuffle-priest-shadow'' # [''blitz-priest-shadow''] \<and>
   fetchPvPBracket (bracket_answer failing_env ''token'' ''shuffle-priest-shadow'') =
     Inl (HttpError 500) \<and>
   pollOnce ascii_lower failing_env init_db =
     ([Request ''shuffle-priest-shadow'', LogError (HttpError 500)], db_resolved)"
proof -
  have tok: "getAccessToken (token_answer late_failing_env) = Inr ''token''"
    by (simp add: late_failing_env_def getAccessToken_def response_ok_def)
  have br: "brackets CONFIG = [''shuffle-priest-shadow''] @ ''blitz-priest-shadow'' # []"
    by (simp add: CONFIG_def)
  have data: "fetchPvPBracket (bracket_answer late_failing_env ''token'' ''shuffle-priest-shadow'') =
      Inr (Some first_fetch)"
    by (simp add: late_failing_env_def fetchPvPBracket_def response_ok_def)
  then have pre: "\<forall>b' \<in> set [''shuffle-priest-shadow'']. \<forall>err'.
      fetchPvPBracket (bracket_answer late_failing_env ''token'' b') \<noteq> Inl err'"
    by simp
  have fail: "fetchPvPBracket (bracket_answer late_failing_env ''token'' ''blitz-priest-shadow'') =
      Inl (HttpError 500)"
    by (simp add: late_failing_env_def fetchPvPBracket_def response_ok_def)
  have tok0: "getAccessToken (token_answer failing_env) = Inr ''token''"
    by (simp add: failing_env_def getAccessToken_def response_ok_def)
  have br0: "brackets CONFIG = [] @ ''shuffle-priest-shadow'' # [''blitz-priest-shadow'']"
    by (simp add: CONFIG_def)
  have pre0: "\<forall>b' \<in> set []. \<forall>err'.
      fetchPvPBracket (bracket_answer failing_env ''token'' b') \<noteq> Inl err'"
    by simp
  have fail0: "fetchPvPBracket (bracket_answer failing_env ''token'' ''shuffle-priest-shadow'') =
      Inl (HttpError 500)"
    by (simp add: failing_env_def fetchPvPBracket_def response_ok_def)
  have has: "filter (has_data late_failing_env ''token'') [''shuffle-priest-shadow''] =
      [''shuffle-priest-shadow'']"
    by (simp add: has_data_def data)
  show ?thesis
    using pollOnce_failure_ends_cycle [OF tok br pre fail, of ascii_lower init_db]
      pollOnce_failure_ends_cycle [OF tok0 br0 pre0 fail0, of ascii_lower init_db]
      tok br data fail tok0 br0 fail0 has
    unfolding late_failing_poll failing_poll
    by (simp add: db_one_snapshot_eq)
qed

end
